theory Spec2Isabelle
  imports Complex_Main "HOL-Library.List_Lexorder" "HOL-Library.Log_Nat"
begin

section \<open>Strings of the analysis pipeline (backend/nlp.py)\<close>

text \<open>
  A Python \<open>str\<close> is a sequence of Unicode code points. A code point is modelled as a
  natural number and a string as the list of its code points, so that \<open>len\<close>, slicing,
  comparison and \<open>sorted\<close> count and order what Python counts and orders (code points,
  not bytes). \<open>u\<close> turns an ASCII literal of the source into such a string.
\<close>

type_synonym codepoint = nat
type_synonym pystr = "codepoint list"

definition u :: "string \<Rightarrow> pystr" where
  "u s = map of_char s"

text \<open>
  \<open>str.isspace\<close>, \<open>str.strip()\<close> and the class \<open>\s\<close> of \<open>re\<close> on a \<open>str\<close> pattern
  share one table of the interpreter: the 29 white-space code points below.
\<close>

definition py_isspace :: "codepoint \<Rightarrow> bool" where
  "py_isspace c \<longleftrightarrow>
     (9 \<le> c \<and> c \<le> 13) \<or> (28 \<le> c \<and> c \<le> 32) \<or> c = 133 \<or> c = 160 \<or> c = 5760 \<or>
     (8192 \<le> c \<and> c \<le> 8202) \<or> c = 8232 \<or> c = 8233 \<or> c = 8239 \<or> c = 8287 \<or> c = 12288"

text \<open>
  \<open>str.lower()\<close> maps an ASCII code point by the rule \<open>A-Z \<mapsto> a-z\<close>. A code point
  from 128 on is mapped through the Unicode case tables of the interpreter, to one or to
  several code points, and for the capital sigma with a look at the characters around
  it. These tables are data of the interpreter and not of this repository: they are the
  parameter \<open>tab\<close>, which receives the characters before, the character itself and the
  characters after.
\<close>

type_synonym case_table = "pystr \<Rightarrow> codepoint \<Rightarrow> pystr \<Rightarrow> pystr"

definition ascii_lower :: "codepoint \<Rightarrow> codepoint" where
  "ascii_lower c = (if 65 \<le> c \<and> c \<le> 90 then c + 32 else c)"

fun lower_from :: "case_table \<Rightarrow> pystr \<Rightarrow> pystr \<Rightarrow> pystr" where
  "lower_from tab before [] = []"
| "lower_from tab before (c # after) =
     (if c < 128 then [ascii_lower c] else tab before c after)
       @ lower_from tab (before @ [c]) after"

definition lower :: "case_table \<Rightarrow> pystr \<Rightarrow> pystr" where
  "lower tab s = lower_from tab [] s"

text \<open>\<open>s.strip()\<close>: white space removed at both ends.\<close>

definition strip :: "pystr \<Rightarrow> pystr" where
  "strip s = rev (dropWhile py_isspace (rev (dropWhile py_isspace s)))"

subsection \<open>Text normalizer\<close>

text \<open>
  The class \<open>[^a-z0-9\s+#\.\-]\<close> of the first substitution: every character that is
  not a lower-case ASCII letter, a digit, white space, \<open>+\<close>, \<open>#\<close>, \<open>.\<close> or \<open>-\<close>.
\<close>

definition kept :: "codepoint \<Rightarrow> bool" where
  "kept c \<longleftrightarrow> (97 \<le> c \<and> c \<le> 122) \<or> (48 \<le> c \<and> c \<le> 57) \<or> py_isspace c \<or>
     c = 43 \<or> c = 35 \<or> c = 46 \<or> c = 45"

definition blank_others :: "pystr \<Rightarrow> pystr" where
  "blank_others s = map (\<lambda>c. if kept c then c else 32) s"

text \<open>\<open>re.sub(r"\s+", " ", s)\<close>: each maximal run of white space becomes one space.\<close>

function collapse_ws :: "pystr \<Rightarrow> pystr" where
  "collapse_ws [] = []"
| "collapse_ws (c # cs) =
     (if py_isspace c then 32 # collapse_ws (dropWhile py_isspace cs)
      else c # collapse_ws cs)"
  by pat_completeness auto
termination
  by (relation "measure length") (auto simp: length_dropWhile_le less_Suc_eq_le)

definition normalize_text :: "case_table \<Rightarrow> pystr \<Rightarrow> pystr" where
  "normalize_text tab s = strip (collapse_ws (blank_others (lower tab s)))"

subsection \<open>Skill extractor\<close>

definition COMMON_SKILLS :: "pystr list" where
  "COMMON_SKILLS = map u
     [''java'', ''python'', ''c++'', ''c#'', ''javascript'', ''react'', ''angular'', ''spring'',
      ''spring boot'', ''hibernate'',
      ''sql'', ''postgresql'', ''mysql'', ''nosql'', ''mongodb'', ''docker'', ''kubernetes'', ''aws'',
      ''azure'', ''gcp'',
      ''rest api'', ''graphql'', ''microservices'', ''git'', ''linux'', ''data structures'',
      ''algorithms'',
      ''machine learning'', ''deep learning'', ''nlp'', ''pytorch'', ''tensorflow'', ''scikit-learn'',
      ''pandas'',
      ''numpy'', ''spark'', ''hadoop'', ''jenkins'', ''ci/cd'', ''prometheus'', ''grafana'', ''ansible'',
      ''terraform'']"

text \<open>
  \<open>sub in s\<close> on strings: \<open>sub\<close> starts at some position of \<open>s\<close>, the position
  behind the last character included (the empty string is in every string).
\<close>

fun startswith :: "pystr \<Rightarrow> pystr \<Rightarrow> bool" where
  "startswith [] s = True"
| "startswith (a # as) [] = False"
| "startswith (a # as) (c # cs) = (a = c \<and> startswith as cs)"

fun contains :: "pystr \<Rightarrow> pystr \<Rightarrow> bool" where
  "contains sub [] = (sub = [])"
| "contains sub (c # cs) = (startswith sub (c # cs) \<or> contains sub cs)"

text \<open>
  \<open>re.findall(r"[A-Za-z\+\#]{2,}", text)\<close>: the scan goes from left to right; at a
  character of the class it takes the whole run of such characters (the quantifier is
  greedy), reports it when it has two characters or more, and goes on behind it.
\<close>

definition token_char :: "codepoint \<Rightarrow> bool" where
  "token_char c \<longleftrightarrow> (65 \<le> c \<and> c \<le> 90) \<or> (97 \<le> c \<and> c \<le> 122) \<or> c = 43 \<or> c = 35"

function findall_tokens :: "pystr \<Rightarrow> pystr list" where
  "findall_tokens [] = []"
| "findall_tokens (c # cs) =
     (if token_char c
      then (if 2 \<le> length (takeWhile token_char (c # cs))
            then [takeWhile token_char (c # cs)] else [])
           @ findall_tokens (dropWhile token_char cs)
      else findall_tokens cs)"
  by pat_completeness auto
termination
  by (relation "measure length") (auto simp: length_dropWhile_le less_Suc_eq_le)

text \<open>
  \<open>found\<close> is a Python set; the two loops add to it, and \<open>sorted(found)\<close> lists it in
  the order of \<open>str\<close>, which is the lexicographic order on code points.
\<close>

definition extract_skills :: "case_table \<Rightarrow> pystr \<Rightarrow> pystr list \<Rightarrow> pystr list" where
  "extract_skills tab text skills_list =
     (let t = normalize_text tab text;
          found = fold (\<lambda>skill found. if contains skill t then insert skill found else found)
                       skills_list {};
          tokens = findall_tokens text;
          found = fold (\<lambda>tok found. if lower tab tok \<in> set skills_list
                                       then insert (lower tab tok) found else found)
                       tokens found
      in sorted_list_of_set found)"

subsection \<open>Match scorer\<close>

text \<open>
  The exceptions of the pipeline. Every one is a subclass of \<open>Exception\<close>, which is what
  the handlers of the providers catch; an interrupt from outside the program is not
  modelled.
\<close>

datatype exc = ZeroDivisionError | TypeError | AttributeError | IndexError | ValueError
  | RequestException | OpenAIError

text \<open>
  A Python \<open>float\<close> is a binary64 number. The scores lie between 0 and 100 and are
  quotients of list lengths, far from overflow and from the subnormal range, so a float
  is modelled by the real number it denotes, and every operation rounds its exact
  result to 53 significant bits, ties to even, as IEEE 754 arithmetic does.
\<close>

definition round_half_even :: "real \<Rightarrow> int" where
  "round_half_even x =
     (let f = \<lfloor>x\<rfloor>; d = x - of_int f
      in if d < 1 / 2 then f else if 1 / 2 < d then f + 1 else if even f then f else f + 1)"

text \<open>The binary exponent of a positive number: \<open>2 powi ilog2 x \<le> x < 2 powi (ilog2 x + 1)\<close>.\<close>

definition ilog2 :: "real \<Rightarrow> int" where
  "ilog2 x =
     (if 1 \<le> x then bitlen \<lfloor>x\<rfloor> - 1
      else let k = bitlen \<lfloor>1 / x\<rfloor> - 1 in if 2 powi (- k) \<le> x then - k else - k - 1)"

definition to_double :: "real \<Rightarrow> real" where
  "to_double x =
     (if x = 0 then 0
      else let e = ilog2 \<bar>x\<bar> - 52
           in sgn x * of_int (round_half_even (\<bar>x\<bar> / 2 powi e)) * 2 powi e)"

text \<open>\<open>a / b\<close> on two \<open>int\<close>: the correctly rounded quotient, or \<open>ZeroDivisionError\<close>.\<close>

definition true_div :: "nat \<Rightarrow> nat \<Rightarrow> exc + real" where
  "true_div a b = (if b = 0 then Inl ZeroDivisionError else Inr (to_double (of_nat a / of_nat b)))"

definition float_mul :: "real \<Rightarrow> real \<Rightarrow> real" where
  "float_mul x y = to_double (x * y)"

text \<open>
  \<open>round(x, 2)\<close> on a float: the exact value of \<open>x\<close> is rounded to two decimals, ties to
  even, and the float nearest to that decimal number is returned.
\<close>

definition round2 :: "real \<Rightarrow> real" where
  "round2 x = to_double (of_int (round_half_even (x * 100)) / 100)"

definition compute_match :: "pystr list \<Rightarrow> pystr list \<Rightarrow> exc + real" where
  "compute_match skills_resume skills_job =
     (if skills_job = [] then Inr 0
      else let matched = set skills_resume \<inter> set skills_job
           in case true_div (card matched) (max 1 (card (set skills_job))) of
                Inl e \<Rightarrow> Inl e
              | Inr score \<Rightarrow> Inr (round2 (float_mul score 100)))"

subsection \<open>Local heuristic fallback\<close>

fun join :: "pystr \<Rightarrow> pystr list \<Rightarrow> pystr" where
  "join sep [] = []"
| "join sep [x] = x"
| "join sep (x # y # ys) = x @ sep @ join sep (y # ys)"

definition heuristic_suggestions :: "pystr list \<Rightarrow> pystr list \<Rightarrow> pystr list" where
  "heuristic_suggestions skills_resume skills_job =
     (let missing = set skills_job - set skills_resume
      in (if missing \<noteq> {}
          then [u ''Skills to add or highlight: '' @ join (u '', '') (sorted_list_of_set missing)]
          else [])
         @ [u ''Quantify achievements (e.g., reduced latency by 30%, processed X records).'']
         @ [u ''Add a short '' @ [39] @ u ''Key Projects'' @ [39]
              @ u '' section with tech stack and outcomes.'']
         @ (if u ''machine learning'' \<in> set skills_job \<or> u ''nlp'' \<in> set skills_job
            then [u ''Include datasets, model performance metrics (accuracy/F1), and deployment details.'']
            else []))"

subsection \<open>Values of the provider responses\<close>

text \<open>
  What \<open>resp.json()\<close> and \<open>json.loads\<close> return, and what the providers return: \<open>None\<close>,
  a \<open>bool\<close>, an \<open>int\<close>, a \<open>float\<close>, a \<open>str\<close>, a \<open>list\<close> or a \<open>dict\<close> with string
  keys (kept as the list of its items, looked up with \<open>map_of\<close>).
\<close>

datatype pyfloat = Finite real | PosInf | NegInf | NaN

datatype pyval = PNone | PBool bool | PInt int | PFloat pyfloat | PStr pystr
  | PList "pyval list" | PDict "(pystr \<times> pyval) list"

text \<open>The truth value of an object, as \<open>not x\<close>, \<open>x or y\<close> and \<open>if x\<close> take it.\<close>

fun truthy :: "pyval \<Rightarrow> bool" where
  "truthy PNone = False"
| "truthy (PBool b) = b"
| "truthy (PInt i) = (i \<noteq> 0)"
| "truthy (PFloat f) = (f \<noteq> Finite 0)"
| "truthy (PStr s) = (s \<noteq> [])"
| "truthy (PList xs) = (xs \<noteq> [])"
| "truthy (PDict kvs) = (kvs \<noteq> [])"

text \<open>
  The library functions the providers call are not code of this repository; they are
  taken as parameters. \<open>json_loads\<close> returns the parsed value or raises,
  \<open>json_dumps\<close> prints a value, and \<open>repr\<close> is \<open>str(x)\<close> on a value that is not a
  string.
\<close>

record library =
  case_tab :: case_table
  json_loads :: "pystr \<Rightarrow> exc + pyval"
  json_dumps :: "pyval \<Rightarrow> pystr"
  repr :: "pyval \<Rightarrow> pystr"

text \<open>
  The world outside the process: the environment variables, whether \<open>import openai\<close>
  succeeded, and the two remote services. \<open>requests_post url payload\<close> is the outcome of
  \<open>requests.post\<close>, \<open>raise_for_status\<close> and \<open>resp.json()\<close> together: the exception one of
  them raises (no connection, timeout, an error status, a body that is not JSON) or the
  decoded body. \<open>chat_completion prompt\<close> is the outcome of
  \<open>openai.ChatCompletion.create(...).choices[0].message.get("content", "")\<close>.
\<close>

record world =
  environ :: "pystr \<rightharpoonup> pystr"
  openai_module :: bool
  requests_post :: "pystr \<Rightarrow> pyval \<Rightarrow> exc + pyval"
  chat_completion :: "pystr \<Rightarrow> exc + pyval"

definition getenv :: "world \<Rightarrow> string \<Rightarrow> pystr option" where
  "getenv w name = environ w (u name)"

text \<open>\<open>os.getenv(a) or os.getenv(b)\<close>: the first value if it is a non-empty string.\<close>

definition getenv_or :: "world \<Rightarrow> string \<Rightarrow> string \<Rightarrow> pystr option" where
  "getenv_or w a b =
     (case getenv w a of Some v \<Rightarrow> if v \<noteq> [] then Some v else getenv w b
      | None \<Rightarrow> getenv w b)"

definition truthy_opt :: "pystr option \<Rightarrow> bool" where
  "truthy_opt v = (case v of Some s \<Rightarrow> s \<noteq> [] | None \<Rightarrow> False)"

definition py_str :: "library \<Rightarrow> pyval \<Rightarrow> pystr" where
  "py_str lib v = (case v of PStr s \<Rightarrow> s | _ \<Rightarrow> repr lib v)"

definition dict_get :: "(pystr \<times> pyval) list \<Rightarrow> string \<Rightarrow> pyval \<Rightarrow> pyval" where
  "dict_get d k dflt = (case map_of d (u k) of Some v \<Rightarrow> v | None \<Rightarrow> dflt)"

text \<open>\<open>x.get(k, dflt)\<close> on any value: only a \<open>dict\<close> has the method.\<close>

definition attr_get :: "pyval \<Rightarrow> string \<Rightarrow> pyval \<Rightarrow> exc + pyval" where
  "attr_get x k dflt = (case x of PDict d \<Rightarrow> Inr (dict_get d k dflt) | _ \<Rightarrow> Inl AttributeError)"

definition py_or :: "pyval \<Rightarrow> pyval \<Rightarrow> pyval" where
  "py_or a b = (if truthy a then a else b)"

text \<open>
  \<open>str.splitlines()\<close>: a line ends at a line boundary (\<open>\n\<close>, \<open>\r\<close>, \<open>\r\n\<close>, \<open>\v\<close>,
  \<open>\f\<close>, \<open>\x1c\<close>, \<open>\x1d\<close>, \<open>\x1e\<close>, \<open>\x85\<close>, U+2028, U+2029), which is not part
  of the line; a boundary at the very end opens no further line.
\<close>

definition linebreak :: "codepoint \<Rightarrow> bool" where
  "linebreak c \<longleftrightarrow> (10 \<le> c \<and> c \<le> 13) \<or> (28 \<le> c \<and> c \<le> 30) \<or> c = 133 \<or> c = 8232 \<or> c = 8233"

function splitlines :: "pystr \<Rightarrow> pystr list" where
  "splitlines [] = []"
| "splitlines (c # cs) =
     (case dropWhile (\<lambda>x. \<not> linebreak x) (c # cs) of
        [] \<Rightarrow> [c # cs]
      | b # rest \<Rightarrow>
          takeWhile (\<lambda>x. \<not> linebreak x) (c # cs)
            # splitlines (if b = 13 \<and> rest \<noteq> [] \<and> hd rest = 10 then tl rest else rest))"
  by pat_completeness auto
termination
proof (relation "measure length")
  show "wf (measure length)" by simp
next
  fix c :: codepoint and cs :: pystr and b :: codepoint and rest :: pystr
  assume d: "dropWhile (\<lambda>x. \<not> linebreak x) (c # cs) = b # rest"
  have "length (b # rest) \<le> length (c # cs)"
    unfolding d[symmetric] by (rule length_dropWhile_le)
  moreover have "length (tl rest) \<le> length rest" by simp
  ultimately show "(if b = 13 \<and> rest \<noteq> [] \<and> hd rest = 10 then tl rest else rest, c # cs)
      \<in> measure length"
    by auto
qed

text \<open>The substitution that removes the leading bullets (\<open>-\<close>, \<open>*\<close>, U+2022) of a line and
  the white space behind them; the pattern is anchored at the start of the line.\<close>

definition bullet :: "codepoint \<Rightarrow> bool" where
  "bullet c \<longleftrightarrow> c = 45 \<or> c = 42 \<or> c = 8226"

definition strip_bullets :: "pystr \<Rightarrow> pystr" where
  "strip_bullets line =
     (if line \<noteq> [] \<and> bullet (hd line)
      then dropWhile py_isspace (dropWhile bullet line) else line)"

text \<open>The loop of the line-split path of provider A, before \<open>lines[:7]\<close>.\<close>

definition cleaned_lines :: "pystr \<Rightarrow> pystr list" where
  "cleaned_lines text_out =
     map strip_bullets (filter (\<lambda>line. line \<noteq> []) (map strip (splitlines text_out)))"

text \<open>\<open>l.strip("-* \t")\<close>: the listed characters removed at both ends.\<close>

definition strip_chars :: "pystr \<Rightarrow> pystr \<Rightarrow> pystr" where
  "strip_chars chars s =
     rev (dropWhile (\<lambda>c. c \<in> set chars) (rev (dropWhile (\<lambda>c. c \<in> set chars) s)))"

subsection \<open>Remote provider A (Gemini)\<close>

definition gemini_prompt :: "pystr \<Rightarrow> pystr \<Rightarrow> pystr" where
  "gemini_prompt resume job =
     u ''You are an expert career coach.'' @ [10]
     @ u ''Given the resume text delimited by triple backticks and the job description delimited by triple backticks, ''
     @ u ''provide 5 concise suggestions to improve the resume for this job. Use short bullet points.''
     @ [10, 10]
     @ u ''Resume:'' @ [10] @ u ''```'' @ [10] @ take 4000 resume @ [10] @ u ''```'' @ [10, 10]
     @ u ''Job:'' @ [10] @ u ''```'' @ [10] @ take 4000 job @ [10] @ u ''```'' @ [10, 10]
     @ u ''Respond with a JSON array of strings only (for example: ['' @ [34] @ u ''point1''
     @ [34] @ u '', '' @ [34] @ u ''point2'' @ [34] @ u '', ...]).''"

text \<open>The first place looked at: \<open>data["candidates"][0]\<close>, its \<open>output\<close> or its \<open>content\<close>.\<close>

definition candidates_text :: "(pystr \<times> pyval) list \<Rightarrow> exc + pyval" where
  "candidates_text data =
     (case map_of data (u ''candidates'') of
        Some (PList (c0 # cands)) \<Rightarrow>
          (case attr_get c0 ''output'' PNone of
             Inl e \<Rightarrow> Inl e
           | Inr out \<Rightarrow> if truthy out then Inr out else attr_get c0 ''content'' PNone)
      | _ \<Rightarrow> Inr PNone)"

text \<open>
  The second place: \<open>data["output"]\<close>, a \<open>dict\<close> with \<open>text\<close> or \<open>content\<close>, or a non-empty
  list of pieces joined by newlines (\<open>"\n".join\<close> raises \<open>TypeError\<close> on a piece that is
  not a string).
\<close>

fun strs_of :: "pyval list \<Rightarrow> pystr list option" where
  "strs_of [] = Some []"
| "strs_of (PStr s # ps) = map_option ((#) s) (strs_of ps)"
| "strs_of (p # ps) = None"

definition output_pieces :: "library \<Rightarrow> pyval list \<Rightarrow> pyval list" where
  "output_pieces lib items =
     map (\<lambda>item. case item of PDict d \<Rightarrow> dict_get d ''content'' (PStr [])
                   | _ \<Rightarrow> PStr (py_str lib item)) items"

definition output_text :: "library \<Rightarrow> (pystr \<times> pyval) list \<Rightarrow> pyval \<Rightarrow> exc + pyval" where
  "output_text lib data text_out =
     (case map_of data (u ''output'') of
        None \<Rightarrow> Inr text_out
      | Some (PDict out) \<Rightarrow>
          Inr (py_or (dict_get out ''text'' PNone) (dict_get out ''content'' PNone))
      | Some (PList items) \<Rightarrow>
          if items \<noteq> []
          then (case strs_of (output_pieces lib items) of
                  Some pieces \<Rightarrow> Inr (PStr (join [10] pieces))
                | None \<Rightarrow> Inl TypeError)
          else Inr text_out
      | Some other \<Rightarrow> Inr text_out)"

definition gemini_text_out :: "library \<Rightarrow> pyval \<Rightarrow> exc + pyval" where
  "gemini_text_out lib data =
     (case data of
        PDict d \<Rightarrow>
          (case candidates_text d of
             Inl e \<Rightarrow> Inl e
           | Inr t1 \<Rightarrow>
               (case (if truthy t1 then Inr t1 else output_text lib d t1) of
                  Inl e \<Rightarrow> Inl e
                | Inr t2 \<Rightarrow>
                    Inr (if truthy t2 then t2
                         else py_or (dict_get d ''text'' PNone)
                                (py_or (dict_get d ''content'' PNone)
                                   (PStr (json_dumps lib data))))))
      | _ \<Rightarrow> Inr (PStr (py_str lib data)))"

text \<open>
  The inner \<open>try\<close>: a parsed list is returned as strings; a parsed value that is not a
  list leaves the \<open>try\<close> without a \<open>return\<close>, and the function ends and returns \<open>None\<close>;
  when \<open>json.loads\<close> raises, the handler splits the text into lines. On a \<open>text_out\<close>
  that is not a string \<open>json.loads\<close> raises \<open>TypeError\<close> and the handler itself raises
  \<open>AttributeError\<close> at \<open>text_out.splitlines()\<close>.
\<close>

definition gemini_parse :: "library \<Rightarrow> pyval \<Rightarrow> exc + pyval" where
  "gemini_parse lib text_out =
     (case text_out of
        PStr t \<Rightarrow>
          (case json_loads lib t of
             Inr (PList xs) \<Rightarrow> Inr (PList (map (\<lambda>x. PStr (py_str lib x)) xs))
           | Inr other \<Rightarrow> Inr PNone
           | Inl e \<Rightarrow> Inr (PList (map PStr (take 7 (cleaned_lines t)))))
      | _ \<Rightarrow> Inl AttributeError)"

definition call_gemini_suggestions :: "library \<Rightarrow> world \<Rightarrow> pystr \<Rightarrow> pystr \<Rightarrow> exc + pyval" where
  "call_gemini_suggestions lib w resume job =
     (let api_key = getenv_or w ''GOOGLE_API_KEY'' ''GEMINI_API_KEY''
      in if \<not> truthy_opt api_key then Inr (PList [])
         else
           let model = (case getenv w ''GEMINI_MODEL'' of Some m \<Rightarrow> m
                        | None \<Rightarrow> u ''text-bison-001'');
               url = u ''https://generativelanguage.googleapis.com/v1beta2/models/'' @ model
                     @ u '':generateText?key='' @ (case api_key of Some k \<Rightarrow> k | None \<Rightarrow> []);
               payload = PDict [(u ''prompt'', PDict [(u ''text'', PStr (gemini_prompt resume job))]),
                                (u ''temperature'', PFloat (Finite (to_double (2 / 10)))),
                                (u ''maxOutputTokens'', PInt 512)]
           in case (case requests_post w url payload of
                      Inl e \<Rightarrow> Inl e
                    | Inr data \<Rightarrow>
                        (case gemini_text_out lib data of
                           Inl e \<Rightarrow> Inl e
                         | Inr text_out \<Rightarrow> gemini_parse lib text_out)) of
                Inl e \<Rightarrow> Inr (PList [])
              | Inr v \<Rightarrow> Inr v)"

subsection \<open>Remote provider B (OpenAI)\<close>

definition openai_prompt :: "pystr \<Rightarrow> pystr \<Rightarrow> pystr" where
  "openai_prompt resume job =
     u ''You are an expert career coach.'' @ [10]
     @ u ''Given the resume text delimited by triple backticks and the job description delimited by triple backticks, provide 5 concise suggestions to improve the resume for this job. Use bullet points.''
     @ [10, 10]
     @ u ''Resume:'' @ [10] @ u ''```'' @ [10] @ take 4000 resume @ [10] @ u ''```'' @ [10, 10]
     @ u ''Job:'' @ [10] @ u ''```'' @ [10] @ take 4000 job @ [10] @ u ''```'' @ [10, 10]
     @ u ''Respond with a JSON array of strings only.''"

text \<open>
  Here \<open>json.loads\<close> is not in a \<open>try\<close> of its own: when it raises, the handler of the
  function returns the empty list. The lines are split only when the text parses and is
  not a list. (The assignment to \<open>openai.api_key\<close> changes the library's module, not this
  program.)
\<close>

definition call_openai_suggestions :: "library \<Rightarrow> world \<Rightarrow> pystr \<Rightarrow> pystr \<Rightarrow> exc + pyval" where
  "call_openai_suggestions lib w resume job =
     (if \<not> openai_module w \<or> \<not> truthy_opt (getenv w ''OPENAI_API_KEY'') then Inr (PList [])
      else case (case chat_completion w (openai_prompt resume job) of
                   Inl e \<Rightarrow> Inl e
                 | Inr (PStr text) \<Rightarrow>
                     (case json_loads lib text of
                        Inl e \<Rightarrow> Inl e
                      | Inr (PList xs) \<Rightarrow> Inr (PList xs)
                      | Inr other \<Rightarrow>
                          Inr (PList (map PStr (take 7
                                 (map (strip_chars (u ''-* '' @ [9]))
                                      (filter (\<lambda>l. strip l \<noteq> []) (splitlines text)))))))
                 | Inr other \<Rightarrow> Inl TypeError) of
             Inl e \<Rightarrow> Inr (PList [])
           | Inr v \<Rightarrow> Inr v)"

subsection \<open>Analysis orchestrator\<close>

datatype provider = Gemini | OpenAI | Heuristic

text \<open>
  The three \<open>if\<close> statements that fill \<open>suggestions\<close>, together with the list of the
  providers that were called, in the order of the calls.
\<close>

definition suggestion_chain ::
  "library \<Rightarrow> world \<Rightarrow> pystr \<Rightarrow> pystr \<Rightarrow> pystr list \<Rightarrow> pystr list \<Rightarrow> exc + (pyval \<times> provider list)" where
  "suggestion_chain lib w resume_text job_description skills_resume skills_job =
     (case (if truthy_opt (getenv_or w ''GOOGLE_API_KEY'' ''GEMINI_API_KEY'')
            then (case call_gemini_suggestions lib w resume_text job_description of
                    Inl e \<Rightarrow> Inl e | Inr v \<Rightarrow> Inr (v, [Gemini]))
            else Inr (PList [], [])) of
        Inl e \<Rightarrow> Inl e
      | Inr (s1, called1) \<Rightarrow>
          (case (if \<not> truthy s1 \<and> openai_module w \<and> truthy_opt (getenv w ''OPENAI_API_KEY'')
                 then (case call_openai_suggestions lib w resume_text job_description of
                         Inl e \<Rightarrow> Inl e | Inr v \<Rightarrow> Inr (v, called1 @ [OpenAI]))
                 else Inr (s1, called1)) of
             Inl e \<Rightarrow> Inl e
           | Inr (s2, called2) \<Rightarrow>
               if \<not> truthy s2
               then Inr (PList (map PStr (heuristic_suggestions skills_resume skills_job)),
                         called2 @ [Heuristic])
               else Inr (s2, called2)))"

text \<open>\<open>str(n)\<close> on a length.\<close>

fun decimal :: "nat \<Rightarrow> pystr" where
  "decimal n = (if n < 10 then [48 + n] else decimal (n div 10) @ [48 + n mod 10])"

declare decimal.simps [simp del]

record analysis_result =
  skills_resume :: "pystr list"
  skills_job :: "pystr list"
  match_score :: real
  suggestions :: pyval
  short_summary :: pystr

text \<open>
  \<open>analyze_resume_and_job\<close> on two strings (\<open>x or ""\<close> is \<open>x\<close> on a string). The result
  comes with the list of the providers called.
\<close>

definition analyze_resume_and_job ::
  "library \<Rightarrow> world \<Rightarrow> pystr \<Rightarrow> pystr \<Rightarrow> exc + (analysis_result \<times> provider list)" where
  "analyze_resume_and_job lib w resume_text job_description =
     (let skills_r = extract_skills (case_tab lib) resume_text COMMON_SKILLS;
          skills_j = extract_skills (case_tab lib) job_description COMMON_SKILLS
      in case compute_match skills_r skills_j of
           Inl e \<Rightarrow> Inl e
         | Inr score \<Rightarrow>
             (case suggestion_chain lib w resume_text job_description skills_r skills_j of
                Inl e \<Rightarrow> Inl e
              | Inr (sugg, called) \<Rightarrow>
                  Inr (\<lparr>skills_resume = skills_r, skills_job = skills_j, match_score = score,
                        suggestions = sugg,
                        short_summary = u ''Resume contains '' @ decimal (length skills_r)
                          @ u '' recognized skills. Job requires '' @ decimal (length skills_j)
                          @ u '' recognized skills.''\<rparr>, called)))"

subsection \<open>Notions of the specification\<close>

text \<open>The characters the normalizer may put out: \<open>a-z\<close>, \<open>0-9\<close>, space, \<open>+\<close>, \<open>#\<close>, \<open>.\<close>, \<open>-\<close>.\<close>

definition out_char :: "codepoint \<Rightarrow> bool" where
  "out_char c \<longleftrightarrow> (97 \<le> c \<and> c \<le> 122) \<or> (48 \<le> c \<and> c \<le> 57) \<or> c = 32 \<or>
     c = 43 \<or> c = 35 \<or> c = 46 \<or> c = 45"

text \<open>
  A token of a text, in the words of the specification: a maximal run of ASCII letters,
  \<open>+\<close> and \<open>#\<close> with two characters or more (the run cannot be extended to the left
  or to the right).
\<close>

definition token_run :: "pystr \<Rightarrow> pystr \<Rightarrow> bool" where
  "token_run t tok \<longleftrightarrow>
     (\<exists>ps ss. t = ps @ tok @ ss \<and> 2 \<le> length tok \<and> (\<forall>c\<in>set tok. token_char c) \<and>
        (ps = [] \<or> \<not> token_char (last ps)) \<and> (ss = [] \<or> \<not> token_char (hd ss)))"

text \<open>
  The match score in the words of the specification: 0.0 for an empty list of job
  skills, and otherwise \<open>round(|R \<inter> J| / |J| * 100, 2)\<close>, in the arithmetic of floats.
\<close>

definition spec_score :: "pystr list \<Rightarrow> pystr list \<Rightarrow> real" where
  "spec_score R J =
     (if J = [] then 0
      else round2 (float_mul (to_double (real (card (set R \<inter> set J)) / real (card (set J)))) 100))"

text \<open>The three fixed suggestions of the heuristic fallback, by name.\<close>

definition quantify_line :: pystr where
  "quantify_line = u ''Quantify achievements (e.g., reduced latency by 30%, processed X records).''"

definition projects_line :: pystr where
  "projects_line = u ''Add a short '' @ [39] @ u ''Key Projects'' @ [39]
     @ u '' section with tech stack and outcomes.''"

definition metrics_line :: pystr where
  "metrics_line = u ''Include datasets, model performance metrics (accuracy/F1), and deployment details.''"

text \<open>The two conditions of the orchestrator, by their names in the specification.\<close>

definition gemini_configured :: "world \<Rightarrow> bool" where
  "gemini_configured w = truthy_opt (getenv_or w ''GOOGLE_API_KEY'' ''GEMINI_API_KEY'')"

definition openai_configured :: "world \<Rightarrow> bool" where
  "openai_configured w = (openai_module w \<and> truthy_opt (getenv w ''OPENAI_API_KEY''))"

subsection \<open>Inputs of the examples\<close>

text \<open>A case table that leaves every code point from 128 on as it is.\<close>

definition plain_case_table :: case_table where
  "plain_case_table before c after = [c]"

text \<open>The texts of Example 1 of the specification.\<close>

definition example_resume :: pystr where
  "example_resume = u ''Experienced Python and React developer, used Docker and AWS.''"

definition example_job :: pystr where
  "example_job = u ''Looking for Python, Django, Docker, Kubernetes.''"

text \<open>
  A library for the examples: \<open>json.loads\<close> and \<open>json.dumps\<close> on the documents the
  examples use (the empty object, and an array of eight strings), and \<open>str\<close> on \<open>None\<close>
  and the booleans. Every other text the examples hand to \<open>sample_json_loads\<close> is not
  JSON, and is rejected as \<open>json.loads\<close> rejects it; the examples use \<open>json.dumps\<close> and
  \<open>str\<close> on no other value.
\<close>

definition eight_points :: "pystr list" where
  "eight_points = map u [''a'', ''b'', ''c'', ''d'', ''e'', ''f'', ''g'', ''h'']"

definition eight_points_json :: pystr where
  "eight_points_json = u ''['' @ join (u '', '') (map (\<lambda>s. [34] @ s @ [34]) eight_points) @ u '']''"

definition sample_json_loads :: "pystr \<Rightarrow> exc + pyval" where
  "sample_json_loads t =
     (if t = u ''{}'' then Inr (PDict [])
      else if t = eight_points_json then Inr (PList (map PStr eight_points))
      else Inl ValueError)"

definition sample_json_dumps :: "pyval \<Rightarrow> pystr" where
  "sample_json_dumps v = (if v = PDict [] then u ''{}'' else u ''null'')"

definition sample_repr :: "pyval \<Rightarrow> pystr" where
  "sample_repr v = (case v of PBool True \<Rightarrow> u ''True'' | PBool False \<Rightarrow> u ''False''
                    | _ \<Rightarrow> u ''None'')"

definition sample_library :: library where
  "sample_library = \<lparr>case_tab = plain_case_table, json_loads = sample_json_loads,
     json_dumps = sample_json_dumps, repr = sample_repr\<rparr>"

text \<open>
  A world for the examples: \<open>GOOGLE_API_KEY\<close> is set when \<open>gkey\<close>, the \<open>openai\<close> module is
  there and \<open>OPENAI_API_KEY\<close> is set when \<open>okey\<close>, and the two services answer \<open>gresp\<close>
  and \<open>oresp\<close> to every request.
\<close>

definition sample_world :: "bool \<Rightarrow> exc + pyval \<Rightarrow> bool \<Rightarrow> exc + pyval \<Rightarrow> world" where
  "sample_world gkey gresp okey oresp =
     \<lparr>environ = (\<lambda>k. if (gkey \<and> k = u ''GOOGLE_API_KEY'') \<or> (okey \<and> k = u ''OPENAI_API_KEY'')
                       then Some (u ''secret'') else None),
      openai_module = okey,
      requests_post = (\<lambda>url payload. gresp),
      chat_completion = (\<lambda>prompt. oresp)\<rparr>"

text \<open>Responses of provider A for the examples.\<close>

definition eight_bullets :: pystr where
  "eight_bullets = join [10] (map (\<lambda>s. u ''- '' @ s) eight_points)"

definition output_response :: "pystr \<Rightarrow> pyval" where
  "output_response text = PDict [(u ''output'', PDict [(u ''text'', PStr text)])]"

text \<open>
  The normalized text in the words of the specification: the characters that are neither
  of the allowed non-blank ones (\<open>a-z\<close>, \<open>0-9\<close>, \<open>+\<close>, \<open>#\<close>, \<open>.\<close>, \<open>-\<close>) separate the
  words of the lower-cased text, and the words are joined by single spaces.
\<close>

definition solid :: "codepoint \<Rightarrow> bool" where
  "solid c \<longleftrightarrow> (97 \<le> c \<and> c \<le> 122) \<or> (48 \<le> c \<and> c \<le> 57) \<or>
     c = 43 \<or> c = 35 \<or> c = 46 \<or> c = 45"

function words_of :: "pystr \<Rightarrow> pystr list" where
  "words_of [] = []"
| "words_of (c # cs) =
     (if solid c then takeWhile solid (c # cs) # words_of (dropWhile solid cs)
      else words_of cs)"
  by pat_completeness auto
termination
  by (relation "measure length") (auto simp: length_dropWhile_le less_Suc_eq_le)

definition spec_normalize :: "pystr \<Rightarrow> pystr" where
  "spec_normalize lowered = join [32] (words_of lowered)"

text \<open>Removal of trailing white space, one half of \<open>strip\<close>.\<close>

definition rstrip :: "pystr \<Rightarrow> pystr" where
  "rstrip s = rev (dropWhile py_isspace (rev s))"

text \<open>
  The specification's condition for the fourth suggestion of the heuristic fallback, in its
  own words: a machine-learning- or NLP-related skill. Among the skills of the taxonomy
  these are the two named so and the deep-learning and machine-learning libraries.
\<close>

definition spec_ml_or_nlp_related :: "pystr \<Rightarrow> bool" where
  "spec_ml_or_nlp_related s \<longleftrightarrow>
     s \<in> set (map u [''machine learning'', ''deep learning'', ''nlp'',
                      ''pytorch'', ''tensorflow'', ''scikit-learn''])"

section \<open>Text normalizer: shape of the output and idempotence\<close>

lemma out_char_lt: "out_char c \<Longrightarrow> c < 128"
  unfolding out_char_def by linarith

lemma isspace_lt: "py_isspace c \<Longrightarrow> c < 128 \<Longrightarrow> c \<le> 32"
  unfolding py_isspace_def by linarith

lemma out_char_space: "out_char c \<Longrightarrow> py_isspace c \<Longrightarrow> c = 32"
  using isspace_lt[of c] out_char_lt[of c] unfolding out_char_def by linarith

lemma space32: "py_isspace 32" by (simp add: py_isspace_def)

lemma out_char_kept: "out_char c \<Longrightarrow> kept c"
  using space32 unfolding out_char_def kept_def by blast

lemma kept_out_char: "kept c \<Longrightarrow> \<not> py_isspace c \<Longrightarrow> out_char c"
  unfolding out_char_def kept_def by blast

lemma out_char_lower: "out_char c \<Longrightarrow> ascii_lower c = c"
  unfolding out_char_def ascii_lower_def by auto

lemma letter_lower: "(65 \<le> c \<and> c \<le> 90) \<or> (97 \<le> c \<and> c \<le> 122) \<Longrightarrow> out_char (ascii_lower c) \<and> \<not> py_isspace (ascii_lower c)"
  using isspace_lt[of "ascii_lower c"] unfolding out_char_def ascii_lower_def by auto

lemma set_collapse_ws: "set (collapse_ws s) \<subseteq> {c \<in> set s. \<not> py_isspace c} \<union> {32}"
  by (induction s rule: collapse_ws.induct) (auto dest: set_dropWhileD)

lemma hd_collapse_ws: "s \<noteq> [] \<Longrightarrow> \<not> py_isspace (hd s) \<Longrightarrow> collapse_ws s \<noteq> [] \<and> hd (collapse_ws s) = hd s"
  by (cases s) auto

lemma successively_collapse_ws:
  "successively (\<lambda>a b. \<not> (py_isspace a \<and> py_isspace b)) (collapse_ws s)"
proof (induction s rule: collapse_ws.induct)
  case 1
  then show ?case by simp
next
  case (2 c cs)
  show ?case
  proof (cases "py_isspace c")
    case True
    let ?r = "dropWhile py_isspace cs"
    have "?r \<noteq> [] \<Longrightarrow> \<not> py_isspace (hd (collapse_ws ?r))"
      using hd_collapse_ws[of ?r] hd_dropWhile[of py_isspace cs] by simp
    moreover have "?r = [] \<Longrightarrow> collapse_ws ?r = []" by (simp only: collapse_ws.simps)
    ultimately show ?thesis using True 2 by (auto simp: successively_Cons)
  next
    case False
    then show ?thesis using 2 by (auto simp: successively_Cons)
  qed
qed

lemma successively_dropWhile: "successively P xs \<Longrightarrow> successively P (dropWhile Q xs)"
  by (induction xs) (auto simp: successively_Cons)

lemma successively_strip:
  assumes "successively (\<lambda>a b. \<not> (py_isspace a \<and> py_isspace b)) xs"
  shows "successively (\<lambda>a b. \<not> (py_isspace a \<and> py_isspace b)) (strip xs)"
proof -
  let ?P = "\<lambda>a b. \<not> (py_isspace a \<and> py_isspace b)"
  have sym: "(\<lambda>x y. ?P y x) = ?P" by (auto simp: fun_eq_iff)
  have "successively ?P (dropWhile py_isspace xs)"
    using assms by (rule successively_dropWhile)
  then have "successively ?P (rev (dropWhile py_isspace xs))"
    by (simp only: successively_rev sym)
  then have "successively ?P (dropWhile py_isspace (rev (dropWhile py_isspace xs)))"
    by (rule successively_dropWhile)
  then show ?thesis by (simp only: strip_def successively_rev sym)
qed

lemma set_strip: "set (strip s) \<subseteq> set s"
  unfolding strip_def by (auto dest!: set_dropWhileD)

lemma strip_ends: "strip s \<noteq> [] \<Longrightarrow> \<not> py_isspace (hd (strip s)) \<and> \<not> py_isspace (last (strip s))"
proof -
  assume ne: "strip s \<noteq> []"
  let ?a = "dropWhile py_isspace s"
  let ?b = "dropWhile py_isspace (rev ?a)"
  have b: "?b \<noteq> []" using ne by (simp add: strip_def)
  then have lastok: "\<not> py_isspace (hd ?b)" by (rule hd_dropWhile)
  have "last (strip s) = hd ?b" using b by (simp add: strip_def last_rev)
  moreover have "\<not> py_isspace (hd (strip s))"
  proof -
    have a: "?a \<noteq> []"
    proof
      assume "?a = []"
      then have "?b = []" by (simp only: rev.simps dropWhile.simps)
      with b show False by contradiction
    qed
    then have ha: "\<not> py_isspace (hd ?a)" by (rule hd_dropWhile)
    obtain ys where ys: "rev ?a = ys @ ?b" by (metis takeWhile_dropWhile_id)
    then have "?a = rev ?b @ rev ys" by (metis rev_append rev_rev_ident)
    then have "hd ?a = hd (rev ?b)" using b by (metis hd_append2 rev_is_Nil_conv)
    then show ?thesis using ha by (simp add: strip_def)
  qed
  ultimately show ?thesis using lastok by simp
qed

lemma normalize_text_chars: "c \<in> set (normalize_text tab s) \<Longrightarrow> out_char c"
proof -
  assume "c \<in> set (normalize_text tab s)"
  then have "c \<in> set (collapse_ws (blank_others (lower tab s)))"
    using set_strip unfolding normalize_text_def by blast
  then have "c = 32 \<or> (c \<in> set (blank_others (lower tab s)) \<and> \<not> py_isspace c)"
    using set_collapse_ws by blast
  then show ?thesis
    using kept_out_char[of c] by (auto simp: blank_others_def out_char_def split: if_splits)
qed

lemma lower_from_ascii: "\<forall>c\<in>set s. c < 128 \<Longrightarrow> lower_from tab b s = map ascii_lower s"
  by (induction s arbitrary: b) auto

lemma lower_out_chars: "\<forall>c\<in>set s. out_char c \<Longrightarrow> lower tab s = s"
proof -
  assume a: "\<forall>c\<in>set s. out_char c"
  then have "\<forall>c\<in>set s. c < 128" using out_char_lt by blast
  then have "lower tab s = map ascii_lower s" unfolding lower_def by (rule lower_from_ascii)
  also have "\<dots> = s" using a by (intro map_idI) (simp add: out_char_lower)
  finally show ?thesis .
qed

lemma blank_others_id: "\<forall>c\<in>set s. kept c \<Longrightarrow> blank_others s = s"
  unfolding blank_others_def by (intro map_idI) auto

lemma collapse_ws_id:
  "successively (\<lambda>a b. \<not> (py_isspace a \<and> py_isspace b)) s \<Longrightarrow>
   \<forall>c\<in>set s. py_isspace c \<longrightarrow> c = 32 \<Longrightarrow> collapse_ws s = s"
proof (induction s rule: collapse_ws.induct)
  case 1
  then show ?case by simp
next
  case (2 c cs)
  have tl: "successively (\<lambda>a b. \<not> (py_isspace a \<and> py_isspace b)) cs"
    using 2(3) by (auto simp: successively_Cons)
  show ?case
  proof (cases "py_isspace c")
    case True
    then have c: "c = 32" using 2(4) by simp
    have "cs = [] \<or> \<not> py_isspace (hd cs)" using 2(3) True by (auto simp: successively_Cons)
    then have d: "dropWhile py_isspace cs = cs" by (simp add: dropWhile_eq_self_iff)
    have "collapse_ws (dropWhile py_isspace cs) = dropWhile py_isspace cs"
      using 2(1)[OF True] tl 2(4) d by simp
    then show ?thesis using True c d by simp
  next
    case False
    then show ?thesis using 2(2) tl 2(4) by simp
  qed
qed

lemma strip_id: "s = [] \<or> (\<not> py_isspace (hd s) \<and> \<not> py_isspace (last s)) \<Longrightarrow> strip s = s"
proof (cases "s = []")
  case True
  then show ?thesis by (simp add: strip_def)
next
  case False
  assume "s = [] \<or> (\<not> py_isspace (hd s) \<and> \<not> py_isspace (last s))"
  then have h: "\<not> py_isspace (hd s)" and l: "\<not> py_isspace (last s)" using False by auto
  have 1: "dropWhile py_isspace s = s" using h by (simp add: dropWhile_eq_self_iff)
  have "hd (rev s) = last s" using False by (simp add: hd_rev)
  then have 2: "dropWhile py_isspace (rev s) = rev s" using l by (simp add: dropWhile_eq_self_iff)
  show ?thesis by (simp add: strip_def 1 2)
qed

lemma normalize_text_fixed:
  assumes "\<forall>c\<in>set r. out_char c"
    and "successively (\<lambda>a b. \<not> (py_isspace a \<and> py_isspace b)) r"
    and "r = [] \<or> (\<not> py_isspace (hd r) \<and> \<not> py_isspace (last r))"
  shows "normalize_text tab r = r"
proof -
  have k: "\<forall>c\<in>set r. kept c" using assms(1) out_char_kept by blast
  have w: "\<forall>c\<in>set r. py_isspace c \<longrightarrow> c = 32"
    using assms(1) out_char_space by blast
  show ?thesis
    unfolding normalize_text_def
    by (simp add: lower_out_chars[OF assms(1)] blank_others_id[OF k]
        collapse_ws_id[OF assms(2) w] strip_id[OF assms(3)])
qed

lemma normalize_text_successively:
  "successively (\<lambda>a b. \<not> (py_isspace a \<and> py_isspace b)) (normalize_text tab s)"
  unfolding normalize_text_def by (rule successively_strip) (rule successively_collapse_ws)

lemma normalize_text_letters:
  assumes "\<forall>c\<in>set s. (65 \<le> c \<and> c \<le> 90) \<or> (97 \<le> c \<and> c \<le> 122)"
  shows "normalize_text tab s = map ascii_lower s"
proof -
  let ?r = "map ascii_lower s"
  have 1: "lower tab s = ?r" unfolding lower_def using assms by (intro lower_from_ascii) auto
  have o: "\<forall>c\<in>set ?r. out_char c \<and> \<not> py_isspace c"
    using assms letter_lower by auto
  have k: "\<forall>c\<in>set ?r. kept c" using o out_char_kept by blast
  have s: "successively (\<lambda>a b. \<not> (py_isspace a \<and> py_isspace b)) ?r"
    using o by (induction s rule: induct_list012) auto
  have e: "?r = [] \<or> (\<not> py_isspace (hd ?r) \<and> \<not> py_isspace (last ?r))"
    using o by (cases "s = []") (auto simp: hd_map last_map)
  show ?thesis
    unfolding normalize_text_def 1
    using blank_others_id[OF k] collapse_ws_id[OF s] strip_id[OF e] o by simp
qed

lemma normalize_text_ascii_case:
  assumes "\<forall>c\<in>set s. c < 128"
  shows "normalize_text tab (map ascii_lower s) = normalize_text tab s"
proof -
  have "\<forall>c\<in>set (map ascii_lower s). c < 128" using assms by (auto simp: ascii_lower_def)
  then have "lower tab (map ascii_lower s) = map ascii_lower (map ascii_lower s)"
    unfolding lower_def by (rule lower_from_ascii)
  also have "\<dots> = map ascii_lower s" by (simp add: ascii_lower_def)
  also have "\<dots> = lower tab s" unfolding lower_def using assms by (rule lower_from_ascii[symmetric])
  finally show ?thesis by (simp add: normalize_text_def)
qed

lemmas string_eval = u_def normalize_text_def lower_def ascii_lower_def blank_others_def kept_def
  py_isspace_def strip_def token_char_def

text \<open>
  C10. \<open>normalize_text\<close> is idempotent: normalizing a normalized string changes nothing.
\<close>

theorem normalize_text_idempotent:
  "normalize_text tab (normalize_text tab s) = normalize_text tab s"
proof (rule normalize_text_fixed)
  show "\<forall>c\<in>set (normalize_text tab s). out_char c" using normalize_text_chars by blast
  show "successively (\<lambda>a b. \<not> (py_isspace a \<and> py_isspace b)) (normalize_text tab s)"
    by (rule normalize_text_successively)
  show "normalize_text tab s = [] \<or>
    (\<not> py_isspace (hd (normalize_text tab s)) \<and> \<not> py_isspace (last (normalize_text tab s)))"
    using strip_ends[of "collapse_ws (blank_others (lower tab s))"]
    unfolding normalize_text_def by blast
qed

theorem normalize_text_idempotent_witness:
  "normalize_text plain_case_table (u ''hello world c++'')
     = normalize_text plain_case_table (u ''  Hello,   World! C++ '')"
proof -
  have "normalize_text plain_case_table (u ''  Hello,   World! C++ '') = u ''hello world c++''"
    by (simp add: string_eval)
  then show ?thesis
    using normalize_text_idempotent[of plain_case_table "u ''  Hello,   World! C++ ''"] by simp
qed

section \<open>Skill extractor\<close>

lemma token_runI:
  "t = ps @ tok @ ss \<Longrightarrow> 2 \<le> length tok \<Longrightarrow> \<forall>c\<in>set tok. token_char c \<Longrightarrow>
   ps = [] \<or> \<not> token_char (last ps) \<Longrightarrow> ss = [] \<or> \<not> token_char (hd ss) \<Longrightarrow> token_run t tok"
  unfolding token_run_def by blast

lemma startswith_iff: "startswith sub s \<longleftrightarrow> (\<exists>ss. s = sub @ ss)"
  by (induction sub s rule: startswith.induct) auto

lemma contains_iff: "contains sub s \<longleftrightarrow> (\<exists>ps ss. s = ps @ sub @ ss)"
proof (induction s)
  case Nil
  then show ?case by auto
next
  case (Cons c cs)
  show ?case
  proof
    assume "contains sub (c # cs)"
    then consider "startswith sub (c # cs)" | "contains sub cs" by auto
    then show "\<exists>ps ss. c # cs = ps @ sub @ ss"
    proof cases
      case 1
      then obtain ss where "c # cs = sub @ ss" using startswith_iff by blast
      then have "c # cs = [] @ sub @ ss" by simp
      then show ?thesis by blast
    next
      case 2
      then obtain ps ss where "cs = ps @ sub @ ss" using Cons.IH by blast
      then have "c # cs = (c # ps) @ sub @ ss" by simp
      then show ?thesis by blast
    qed
  next
    assume "\<exists>ps ss. c # cs = ps @ sub @ ss"
    then obtain ps ss where e: "c # cs = ps @ sub @ ss" by blast
    show "contains sub (c # cs)"
    proof (cases ps)
      case Nil
      then have "startswith sub (c # cs)" using e startswith_iff by auto
      then show ?thesis by simp
    next
      case (Cons p ps')
      then have "cs = ps' @ sub @ ss" using e by simp
      then have "contains sub cs" using Cons.IH by blast
      then show ?thesis by simp
    qed
  qed
qed

lemma takeWhile_run:
  assumes "\<forall>c\<in>set tok. P c" and "ss = [] \<or> \<not> P (hd ss)"
  shows "takeWhile P (tok @ ss) = tok" and "dropWhile P (tok @ ss) = ss"
proof -
  have t: "takeWhile P ss = []" using assms(2) by (cases ss) auto
  have d: "dropWhile P ss = ss" using assms(2) by (cases ss) auto
  show "takeWhile P (tok @ ss) = tok" using assms(1) t by (simp add: takeWhile_append2)
  show "dropWhile P (tok @ ss) = ss" using assms(1) d by (simp add: dropWhile_append2)
qed

lemma dropWhile_split:
  assumes "ps \<noteq> []" and "\<not> P (last ps)"
  shows "\<exists>qs. dropWhile P (ps @ rest) = qs @ rest \<and> qs \<noteq> [] \<and> last qs = last ps"
proof -
  have ex: "last ps \<in> set ps" using assms(1) by (rule last_in_set)
  have 1: "dropWhile P (ps @ rest) = dropWhile P ps @ rest"
    using ex assms(2) by (rule dropWhile_append1)
  have 2: "dropWhile P ps \<noteq> []" using ex assms(2) by auto
  have "last (dropWhile P ps) = last ps" using ex assms(2) by (rule dropWhile_last)
  with 1 2 show ?thesis by blast
qed

lemma findall_tokens_Cons_token:
  "token_char c \<Longrightarrow> findall_tokens (c # cs) =
     (if 2 \<le> length (takeWhile token_char (c # cs)) then [takeWhile token_char (c # cs)] else [])
       @ findall_tokens (dropWhile token_char cs)"
  by (simp only: findall_tokens.simps if_True)

lemma findall_tokens_Cons_other:
  "\<not> token_char c \<Longrightarrow> findall_tokens (c # cs) = findall_tokens cs"
  by (simp only: findall_tokens.simps if_False)

lemma findall_tokens_sound: "tok \<in> set (findall_tokens t) \<Longrightarrow> token_run t tok"
proof (induction t rule: findall_tokens.induct)
  case 1
  then show ?case by (simp only: findall_tokens.simps list.set empty_iff)
next
  case (2 c cs)
  show ?case
  proof (cases "token_char c")
    case True
    let ?run = "takeWhile token_char (c # cs)"
    let ?rest = "dropWhile token_char cs"
    have "?run @ dropWhile token_char (c # cs) = c # cs" by (rule takeWhile_dropWhile_id)
    moreover have "dropWhile token_char (c # cs) = ?rest" using True by (simp only: dropWhile.simps if_True)
    ultimately have split: "c # cs = ?run @ ?rest" by (simp only:)
    have mem: "tok \<in> set ((if 2 \<le> length ?run then [?run] else []) @ findall_tokens ?rest)"
      using 2(3) unfolding findall_tokens_Cons_token[OF True] .
    then consider "tok = ?run \<and> 2 \<le> length ?run" | "tok \<in> set (findall_tokens ?rest)"
      by (cases "2 \<le> length ?run") (simp_all only: set_append Un_iff if_True if_False list.set insert_iff empty_iff, blast+)
    then show ?thesis
    proof cases
      case 1
      have a: "c # cs = [] @ tok @ ?rest" using split 1 by (simp only: append_Nil)
      have b: "\<forall>x\<in>set tok. token_char x" using 1 set_takeWhileD[of _ token_char "c # cs"] by blast
      have d: "?rest = [] \<or> \<not> token_char (hd ?rest)" using hd_dropWhile[of token_char cs] by blast
      have l: "2 \<le> length tok" using 1 by blast
      have n: "([]::pystr) = [] \<or> \<not> token_char (last [])" by blast
      show ?thesis by (rule token_runI[OF a l b n d])
    next
      case 2
      then have "token_run ?rest tok" using "2.IH"(1) True by blast
      then obtain ps ss where r: "?rest = ps @ tok @ ss" "2 \<le> length tok" "\<forall>x\<in>set tok. token_char x"
        "ps = [] \<or> \<not> token_char (last ps)" "ss = [] \<or> \<not> token_char (hd ss)"
        unfolding token_run_def by blast
      obtain t0 tok' where tk: "tok = t0 # tok'" using r(2) by (cases tok) auto
      have t0: "token_char t0" using r(3) tk by simp
      have "ps \<noteq> []"
      proof
        assume "ps = []"
        then have e: "?rest = t0 # (tok' @ ss)" using r(1) tk by simp
        then have "\<not> token_char (hd (t0 # (tok' @ ss)))"
          using hd_dropWhile[of token_char cs] by (metis list.distinct(1))
        then show False using t0 by simp
      qed
      then have a: "?run @ ps = [] \<or> \<not> token_char (last (?run @ ps))" using r(4) by simp
      have b: "c # cs = (?run @ ps) @ tok @ ss"
        unfolding append_assoc r(1)[symmetric] by (rule split)
      show ?thesis by (rule token_runI[OF b r(2) r(3) a r(5)])
    qed
  next
    case False
    have "tok \<in> set (findall_tokens cs)"
      using 2(3) unfolding findall_tokens_Cons_other[OF False] .
    then have "token_run cs tok" using "2.IH"(2) False by blast
    then obtain ps ss where r: "cs = ps @ tok @ ss" "2 \<le> length tok" "\<forall>x\<in>set tok. token_char x"
        "ps = [] \<or> \<not> token_char (last ps)" "ss = [] \<or> \<not> token_char (hd ss)"
        unfolding token_run_def by blast
    have b: "c # cs = (c # ps) @ tok @ ss" using r(1) by simp
    have a: "c # ps = [] \<or> \<not> token_char (last (c # ps))" using r(4) False by auto
    show ?thesis by (rule token_runI[OF b r(2) r(3) a r(5)])
  qed
qed

lemma findall_tokens_complete: "token_run t tok \<Longrightarrow> tok \<in> set (findall_tokens t)"
proof (induction t rule: findall_tokens.induct)
  case 1
  then show ?case by (auto simp: token_run_def)
next
  case (2 c cs)
  from 2(3) obtain ps ss where r: "c # cs = ps @ tok @ ss" "2 \<le> length tok" "\<forall>x\<in>set tok. token_char x"
        "ps = [] \<or> \<not> token_char (last ps)" "ss = [] \<or> \<not> token_char (hd ss)"
        unfolding token_run_def by blast
  have tokne: "tok \<noteq> []" using r(2) by auto
  show ?case
  proof (cases "token_char c")
    case True
    show ?thesis
    proof (cases "ps = []")
      case True
      then have "takeWhile token_char (c # cs) = tok"
        using takeWhile_run(1)[OF r(3) r(5)] r(1) by simp
      then show ?thesis using \<open>token_char c\<close> r(2) by simp
    next
      case False
      then have nl: "\<not> token_char (last ps)" using r(4) by simp
      obtain qs where q: "dropWhile token_char (ps @ tok @ ss) = qs @ tok @ ss" "qs \<noteq> []" "last qs = last ps"
        using dropWhile_split[of ps token_char "tok @ ss", OF False nl] by blast
      have "dropWhile token_char (c # cs) = dropWhile token_char cs" using True by simp
      then have b: "dropWhile token_char cs = qs @ tok @ ss" using q(1) r(1) by simp
      have a: "qs = [] \<or> \<not> token_char (last qs)" using q(3) nl by simp
      have "token_run (dropWhile token_char cs) tok"
        by (rule token_runI[OF b r(2) r(3) a r(5)])
      then have "tok \<in> set (findall_tokens (dropWhile token_char cs))"
        using "2.IH"(1) True by blast
      then show ?thesis using True by simp
    qed
  next
    case False
    have "ps \<noteq> []"
    proof
      assume "ps = []"
      then have "c = hd tok" using r(1) tokne by (cases tok) auto
      then show False using False r(3) tokne by auto
    qed
    then obtain ps' where ps: "ps = c # ps'" using r(1) by (cases ps) auto
    then have b: "cs = ps' @ tok @ ss" using r(1) by simp
    have a: "ps' = [] \<or> \<not> token_char (last ps')" using r(4) ps by auto
    have "token_run cs tok" by (rule token_runI[OF b r(2) r(3) a r(5)])
    then have "tok \<in> set (findall_tokens cs)" using "2.IH"(2) False by blast
    then show ?thesis using False by simp
  qed
qed

lemma fold_insert_filter:
  "fold (\<lambda>x A. if P x then insert x A else A) xs A = A \<union> {x \<in> set xs. P x}"
  by (induction xs arbitrary: A) auto

lemma fold_insert_image:
  "fold (\<lambda>x A. if P (f x) then insert (f x) A else A) xs A = A \<union> {y \<in> f ` set xs. P y}"
  by (induction xs arbitrary: A) auto

lemma extract_skills_found:
  "extract_skills tab text T = sorted_list_of_set
     ({k \<in> set T. contains k (normalize_text tab text)} \<union>
      {k \<in> lower tab ` set (findall_tokens text). k \<in> set T})"
  unfolding extract_skills_def Let_def fold_insert_filter
  using fold_insert_image[of "\<lambda>k. k \<in> set T" "lower tab" "findall_tokens text"]
  by simp

lemma extract_skills_list:
  "extract_skills tab text T =
     sort (remdups (filter (\<lambda>k. contains k (normalize_text tab text)) T @
                    filter (\<lambda>k. k \<in> set T) (map (lower tab) (findall_tokens text))))"
proof -
  let ?xs = "filter (\<lambda>k. contains k (normalize_text tab text)) T @
                    filter (\<lambda>k. k \<in> set T) (map (lower tab) (findall_tokens text))"
  have "{k \<in> set T. contains k (normalize_text tab text)} \<union>
      {k \<in> lower tab ` set (findall_tokens text). k \<in> set T} = set ?xs"
    by auto
  then show ?thesis
    by (simp only: extract_skills_found sorted_list_of_set_sort_remdups)
qed

lemma set_extract_skills:
  "set (extract_skills tab text T) =
     {k \<in> set T. contains k (normalize_text tab text)} \<union>
      {k \<in> lower tab ` set (findall_tokens text). k \<in> set T}"
  unfolding extract_skills_found by simp

lemma lower_from_ascii_prefix:
  "\<forall>c\<in>set X. c < 128 \<Longrightarrow>
   lower_from tab b (X @ ss) = map ascii_lower X @ lower_from tab (b @ X) ss"
  by (induction X arbitrary: b) auto

lemma lower_from_keeps:
  assumes "\<forall>c\<in>set X. c < 128"
  shows "\<exists>A B. lower_from tab b (ps @ X @ ss) = A @ map ascii_lower X @ B"
proof (induction ps arbitrary: b)
  case Nil
  have "lower_from tab b ([] @ X @ ss) = [] @ map ascii_lower X @ lower_from tab (b @ X) ss"
    using lower_from_ascii_prefix[OF assms] by simp
  then show ?case by blast
next
  case (Cons c ps)
  obtain A B where "lower_from tab (b @ [c]) (ps @ X @ ss) = A @ map ascii_lower X @ B"
    using Cons by blast
  then have "lower_from tab b ((c # ps) @ X @ ss)
      = ((if c < 128 then [ascii_lower c] else tab b c (ps @ X @ ss)) @ A) @ map ascii_lower X @ B"
    by simp
  then show ?case by blast
qed

lemma dropWhile_solid:
  assumes "Y \<noteq> []" and "\<not> P (hd Y)"
  shows "dropWhile P (p @ Y @ q) = dropWhile P p @ Y @ q"
proof (cases "\<forall>x\<in>set p. P x")
  case True
  have "dropWhile P (Y @ q) = Y @ q" using assms by (cases Y) auto
  then show ?thesis using True by (simp add: dropWhile_append2)
next
  case False
  then obtain x where "x \<in> set p" "\<not> P x" by blast
  then show ?thesis by (rule dropWhile_append1)
qed

lemma collapse_ws_solid:
  "\<forall>c\<in>set Y. \<not> py_isspace c \<Longrightarrow> collapse_ws (Y @ q) = Y @ collapse_ws q"
  by (induction Y) auto

lemma collapse_ws_keeps:
  assumes "Y \<noteq> []" and "\<forall>c\<in>set Y. \<not> py_isspace c"
  shows "\<exists>p'. collapse_ws (p @ Y @ q) = p' @ Y @ collapse_ws q"
proof (induction p rule: collapse_ws.induct)
  case 1
  have "collapse_ws ([] @ Y @ q) = [] @ Y @ collapse_ws q"
    using collapse_ws_solid[OF assms(2)] by simp
  then show ?case by blast
next
  case (2 c cs)
  have hd: "\<not> py_isspace (hd Y)" using assms by (cases Y) auto
  show ?case
  proof (cases "py_isspace c")
    case True
    obtain p' where p': "collapse_ws (dropWhile py_isspace cs @ Y @ q) = p' @ Y @ collapse_ws q"
      using 2(1)[OF True] by blast
    have "collapse_ws ((c # cs) @ Y @ q) = 32 # collapse_ws (dropWhile py_isspace (cs @ Y @ q))"
      using True by simp
    also have "\<dots> = 32 # collapse_ws (dropWhile py_isspace cs @ Y @ q)"
      by (simp only: dropWhile_solid[of Y py_isspace cs q, OF assms(1) hd])
    also have "\<dots> = (32 # p') @ Y @ collapse_ws q" using p' by simp
    finally show ?thesis by blast
  next
    case False
    obtain p' where p': "collapse_ws (cs @ Y @ q) = p' @ Y @ collapse_ws q"
      using 2(2)[OF False] by blast
    have "collapse_ws ((c # cs) @ Y @ q) = (c # p') @ Y @ collapse_ws q"
      using False p' by simp
    then show ?thesis by blast
  qed
qed

lemma strip_keeps:
  assumes "Y \<noteq> []" and "\<forall>c\<in>set Y. \<not> py_isspace c"
  shows "\<exists>p' q'. strip (p @ Y @ q) = p' @ Y @ q'"
proof -
  have hd: "\<not> py_isspace (hd Y)" using assms by (cases Y) auto
  have r: "rev Y \<noteq> []" using assms(1) by simp
  have "hd (rev Y) = last Y" using assms(1) by (simp add: hd_rev)
  then have hr: "\<not> py_isspace (hd (rev Y))" using assms last_in_set by metis
  have 1: "dropWhile py_isspace (p @ Y @ q) = dropWhile py_isspace p @ Y @ q"
    by (rule dropWhile_solid[of Y py_isspace p q, OF assms(1) hd])
  have 2: "rev (dropWhile py_isspace p @ Y @ q) = rev q @ rev Y @ rev (dropWhile py_isspace p)"
    by simp
  have 3: "dropWhile py_isspace (rev q @ rev Y @ rev (dropWhile py_isspace p))
      = dropWhile py_isspace (rev q) @ rev Y @ rev (dropWhile py_isspace p)"
    by (rule dropWhile_solid[of "rev Y" py_isspace "rev q" "rev (dropWhile py_isspace p)", OF r hr])
  have "strip (p @ Y @ q) = dropWhile py_isspace p @ Y @ rev (dropWhile py_isspace (rev q))"
    unfolding strip_def 1 2 3 by simp
  then show ?thesis by blast
qed

lemma blank_others_append: "blank_others (p @ q) = blank_others p @ blank_others q"
  by (simp add: blank_others_def)

lemma normalize_text_keeps:
  assumes "text = ps @ X @ ss" and "X \<noteq> []"
    and "\<forall>c\<in>set X. c < 128 \<and> kept (ascii_lower c) \<and> \<not> py_isspace (ascii_lower c)"
  shows "\<exists>p' q'. normalize_text tab text = p' @ map ascii_lower X @ q'"
proof -
  let ?Y = "map ascii_lower X"
  have Y: "?Y \<noteq> []" using assms(2) by simp
  have ns: "\<forall>c\<in>set ?Y. \<not> py_isspace c" using assms(3) by simp
  have "\<forall>c\<in>set X. c < 128" using assms(3) by blast
  then obtain A B where 1: "lower tab text = A @ ?Y @ B"
    unfolding lower_def assms(1) using lower_from_keeps by blast
  have "\<forall>c\<in>set ?Y. kept c" using assms(3) by simp
  then have "blank_others ?Y = ?Y" by (rule blank_others_id)
  then have 2: "blank_others (lower tab text) = blank_others A @ ?Y @ blank_others B"
    unfolding 1 by (simp add: blank_others_append)
  obtain p1 where 3: "collapse_ws (blank_others (lower tab text))
      = p1 @ ?Y @ collapse_ws (blank_others B)"
    unfolding 2 using collapse_ws_keeps[OF Y ns] by blast
  show ?thesis unfolding normalize_text_def 3 by (rule strip_keeps[OF Y ns])
qed

lemma extract_skills_substring:
  assumes "text = ps @ X @ ss" and "X \<noteq> []"
    and "\<forall>c\<in>set X. c < 128 \<and> kept (ascii_lower c) \<and> \<not> py_isspace (ascii_lower c)"
    and "map ascii_lower X \<in> set T"
  shows "map ascii_lower X \<in> set (extract_skills tab text T)"
proof -
  have "contains (map ascii_lower X) (normalize_text tab text)"
    unfolding contains_iff using normalize_text_keeps[OF assms(1,2,3)] by blast
  then show ?thesis using assms(4) unfolding set_extract_skills by blast
qed

lemma cpp_in_skills: "u ''c++'' \<in> set COMMON_SKILLS" "u ''c#'' \<in> set COMMON_SKILLS"
  by (simp_all add: COMMON_SKILLS_def)

lemma cpp_detected:
  assumes "t = ps @ u ''C++'' @ ss"
  shows "u ''c++'' \<in> set (extract_skills tab t COMMON_SKILLS)"
proof -
  have m: "map ascii_lower (u ''C++'') = u ''c++''" by (simp add: u_def ascii_lower_def)
  have "map ascii_lower (u ''C++'') \<in> set (extract_skills tab t COMMON_SKILLS)"
  proof (rule extract_skills_substring[OF assms])
    show "u ''C++'' \<noteq> []" by (simp add: u_def)
    show "\<forall>c\<in>set (u ''C++''). c < 128 \<and> kept (ascii_lower c) \<and> \<not> py_isspace (ascii_lower c)"
      by (simp add: u_def ascii_lower_def kept_def py_isspace_def)
    show "map ascii_lower (u ''C++'') \<in> set COMMON_SKILLS" unfolding m by (rule cpp_in_skills)
  qed
  then show ?thesis unfolding m .
qed

lemma csharp_detected:
  assumes "t = ps @ u ''C#'' @ ss"
  shows "u ''c#'' \<in> set (extract_skills tab t COMMON_SKILLS)"
proof -
  have m: "map ascii_lower (u ''C#'') = u ''c#''" by (simp add: u_def ascii_lower_def)
  have "map ascii_lower (u ''C#'') \<in> set (extract_skills tab t COMMON_SKILLS)"
  proof (rule extract_skills_substring[OF assms])
    show "u ''C#'' \<noteq> []" by (simp add: u_def)
    show "\<forall>c\<in>set (u ''C#''). c < 128 \<and> kept (ascii_lower c) \<and> \<not> py_isspace (ascii_lower c)"
      by (simp add: u_def ascii_lower_def kept_def py_isspace_def)
    show "map ascii_lower (u ''C#'') \<in> set COMMON_SKILLS" unfolding m by (rule cpp_in_skills)
  qed
  then show ?thesis unfolding m .
qed

lemma token_lower:
  assumes "\<forall>c\<in>set tok. token_char c"
  shows "lower tab tok = map ascii_lower tok"
proof -
  have "\<forall>c\<in>set tok. c < 128" using assms by (auto simp: token_char_def)
  then show ?thesis unfolding lower_def by (rule lower_from_ascii)
qed

text \<open>
  C2. The skills extracted from a text \<open>t\<close> with a taxonomy \<open>T\<close> are those of two
  passes, united: the skills of \<open>T\<close> that occur as a substring of \<open>normalize_text t\<close>,
  and the lower-casings, when they are members of \<open>T\<close>, of the tokens of the original
  text (maximal runs of ASCII letters, \<open>+\<close> and \<open>#\<close> of length at least 2; on such a
  token \<open>lower()\<close> is the ASCII lower-casing). In particular a text that contains \<open>C++\<close>
  and \<open>C#\<close> yields the two distinct skills \<open>c++\<close> and \<open>c#\<close> of the built-in taxonomy.
\<close>

theorem extract_skills_two_passes:
  "set (extract_skills tab t T) =
     {k \<in> set T. \<exists>ps ss. normalize_text tab t = ps @ k @ ss} \<union>
     {map ascii_lower tok |tok. token_run t tok \<and> map ascii_lower tok \<in> set T} \<and>
   ((\<exists>ps ss. t = ps @ u ''C++'' @ ss) \<and> (\<exists>ps ss. t = ps @ u ''C#'' @ ss) \<longrightarrow>
      u ''c++'' \<in> set (extract_skills tab t COMMON_SKILLS) \<and>
      u ''c#'' \<in> set (extract_skills tab t COMMON_SKILLS) \<and> u ''c++'' \<noteq> u ''c#'')"
proof (intro conjI impI)
  have tr: "\<And>tok. tok \<in> set (findall_tokens t) \<longleftrightarrow> token_run t tok"
    using findall_tokens_sound findall_tokens_complete by blast
  have "{k \<in> lower tab ` set (findall_tokens t). k \<in> set T}
      = {map ascii_lower tok |tok. token_run t tok \<and> map ascii_lower tok \<in> set T}"
  proof (intro set_eqI iffI)
    fix k assume "k \<in> {k \<in> lower tab ` set (findall_tokens t). k \<in> set T}"
    then obtain tok where k: "k = lower tab tok" "token_run t tok" "k \<in> set T"
      using tr by blast
    then have "\<forall>c\<in>set tok. token_char c" unfolding token_run_def by blast
    then have "k = map ascii_lower tok" using k(1) token_lower by simp
    then show "k \<in> {map ascii_lower tok |tok. token_run t tok \<and> map ascii_lower tok \<in> set T}"
      using k by blast
  next
    fix k assume "k \<in> {map ascii_lower tok |tok. token_run t tok \<and> map ascii_lower tok \<in> set T}"
    then obtain tok where k: "k = map ascii_lower tok" "token_run t tok" "k \<in> set T" by blast
    then have "\<forall>c\<in>set tok. token_char c" unfolding token_run_def by blast
    then have "k = lower tab tok" using k(1) token_lower by simp
    moreover have "tok \<in> set (findall_tokens t)" using k(2) tr by blast
    ultimately show "k \<in> {k \<in> lower tab ` set (findall_tokens t). k \<in> set T}"
      using k(3) by blast
  qed
  then show "set (extract_skills tab t T) =
     {k \<in> set T. \<exists>ps ss. normalize_text tab t = ps @ k @ ss} \<union>
     {map ascii_lower tok |tok. token_run t tok \<and> map ascii_lower tok \<in> set T}"
    unfolding set_extract_skills contains_iff by simp
next
  assume a: "(\<exists>ps ss. t = ps @ u ''C++'' @ ss) \<and> (\<exists>ps ss. t = ps @ u ''C#'' @ ss)"
  show "u ''c++'' \<in> set (extract_skills tab t COMMON_SKILLS)" using a cpp_detected by blast
  show "u ''c#'' \<in> set (extract_skills tab t COMMON_SKILLS)" using a csharp_detected by blast
  show "u ''c++'' \<noteq> u ''c#''" by (simp add: u_def)
qed

theorem extract_skills_two_passes_witness:
  "u ''c++'' \<in> set (extract_skills plain_case_table (u ''Knows C++ and C#.'') COMMON_SKILLS) \<and>
   u ''c#'' \<in> set (extract_skills plain_case_table (u ''Knows C++ and C#.'') COMMON_SKILLS) \<and>
   extract_skills plain_case_table (u ''Knows C++ and C#.'') COMMON_SKILLS = [u ''c#'', u ''c++'']"
proof -
  have 1: "u ''Knows C++ and C#.'' = u ''Knows '' @ u ''C++'' @ u '' and C#.''"
    by (simp add: u_def)
  have 2: "u ''Knows C++ and C#.'' = u ''Knows C++ and '' @ u ''C#'' @ u ''.''"
    by (simp add: u_def)
  have 3: "extract_skills plain_case_table (u ''Knows C++ and C#.'') COMMON_SKILLS = [u ''c#'', u ''c++'']"
    by (simp add: extract_skills_list string_eval COMMON_SKILLS_def)
  show ?thesis
    using extract_skills_two_passes[of plain_case_table "u ''Knows C++ and C#.''" COMMON_SKILLS] 1 2 3
    by blast
qed

text \<open>
  C6. For every taxonomy \<open>T\<close> and every text \<open>s\<close>, the extracted skills are members of
  \<open>T\<close>, and they are returned without duplicates and sorted, in the lexicographic order
  on code points (strictly ascending). The function is total (the model has no error
  branch, as the source has none), and the empty taxonomy yields the empty list.
\<close>

theorem extract_skills_invariants:
  "set (extract_skills tab s T) \<subseteq> set T \<and>
   sorted (extract_skills tab s T) \<and>
   distinct (extract_skills tab s T) \<and>
   sorted_wrt (\<lambda>a b. (a, b) \<in> lexord {(x, y). x < y}) (extract_skills tab s T) \<and>
   extract_skills tab s [] = []"
proof (intro conjI)
  show "set (extract_skills tab s T) \<subseteq> set T" unfolding set_extract_skills by blast
  show "sorted (extract_skills tab s T)" unfolding extract_skills_found by simp
  show "distinct (extract_skills tab s T)" unfolding extract_skills_found by simp
  have "sorted_wrt (<) (extract_skills tab s T)"
    unfolding extract_skills_found by (rule strict_sorted_list_of_set)
  then show "sorted_wrt (\<lambda>a b. (a, b) \<in> lexord {(x, y). x < y}) (extract_skills tab s T)"
    by (rule sorted_wrt_mono_rel[rotated]) (simp add: list_less_def)
  show "extract_skills tab s [] = []" unfolding extract_skills_found by simp
qed

theorem extract_skills_invariants_witness:
  "extract_skills plain_case_table (u ''SQL and Java; java again'') COMMON_SKILLS = [u ''java'', u ''sql''] \<and>
   set (extract_skills plain_case_table (u ''SQL and Java; java again'') COMMON_SKILLS) \<subseteq> set COMMON_SKILLS \<and>
   distinct (extract_skills plain_case_table (u ''SQL and Java; java again'') COMMON_SKILLS)"
proof -
  have "extract_skills plain_case_table (u ''SQL and Java; java again'') COMMON_SKILLS = [u ''java'', u ''sql'']"
    by (simp add: extract_skills_list string_eval COMMON_SKILLS_def)
  then show ?thesis
    using extract_skills_invariants[of plain_case_table "u ''SQL and Java; java again''" COMMON_SKILLS]
    by simp
qed

section \<open>Match scorer: rounding, the formula and monotonicity\<close>

lemma ilog2_bounds:
  assumes "0 < x"
  shows "2 powi ilog2 x \<le> x" and "x < 2 powi (ilog2 x + 1)"
proof -
  have both: "2 powi ilog2 x \<le> x \<and> x < 2 powi (ilog2 x + 1)"
  proof (cases "1 \<le> x")
    case True
    define n where "n = \<lfloor>x\<rfloor>"
    have n1: "1 \<le> n" using True by (simp add: n_def le_floor_iff)
    then have n0: "0 < n" by simp
    have b1: "1 \<le> bitlen n" using n0 by (simp add: bitlen_alt_def)
    from bitlen_bounds[OF n0]
    have lo: "2 ^ nat (bitlen n - 1) \<le> n" and hi: "n < 2 ^ nat (bitlen n)" by auto
    have e: "ilog2 x = bitlen n - 1" using True by (simp add: ilog2_def n_def)
    have p1: "(2::real) powi (bitlen n - 1) = 2 ^ nat (bitlen n - 1)"
      using b1 by (simp add: power_int_def)
    have p2: "(2::real) powi (bitlen n - 1 + 1) = 2 ^ nat (bitlen n)"
      using b1 by (simp add: power_int_def)
    have "real_of_int (2 ^ nat (bitlen n - 1)) \<le> real_of_int n" using lo by (simp only: of_int_le_iff)
    also have "\<dots> \<le> x" by (simp add: n_def)
    finally have A: "2 powi ilog2 x \<le> x" unfolding e p1 by simp
    have "n + 1 \<le> 2 ^ nat (bitlen n)" using hi by simp
    then have "real_of_int (n + 1) \<le> real_of_int (2 ^ nat (bitlen n))" by (simp only: of_int_le_iff)
    moreover have "x < real_of_int (n + 1)" unfolding n_def by linarith
    ultimately have B: "x < 2 powi (ilog2 x + 1)" unfolding e p2 by simp
    show ?thesis using A B by blast
  next
    case False
    define y where "y = 1 / x"
    define n where "n = \<lfloor>y\<rfloor>"
    define k where "k = bitlen n - 1"
    have y1: "1 < y" using False assms by (simp add: y_def)
    have n1: "1 \<le> n" using y1 by (simp add: n_def le_floor_iff)
    then have n0: "0 < n" by simp
    have b1: "1 \<le> bitlen n" using n0 by (simp add: bitlen_alt_def)
    then have k0: "0 \<le> k" by (simp add: k_def)
    from bitlen_bounds[OF n0]
    have lo: "2 ^ nat k \<le> n" and hi: "n < 2 ^ nat (bitlen n)" by (auto simp: k_def)
    have "real_of_int (2 ^ nat k) \<le> real_of_int n" using lo by (simp only: of_int_le_iff)
    also have "\<dots> \<le> y" by (simp add: n_def)
    finally have ylo: "2 ^ nat k \<le> y" by simp
    have "n + 1 \<le> 2 ^ nat (bitlen n)" using hi by simp
    then have "real_of_int (n + 1) \<le> real_of_int (2 ^ nat (bitlen n))" by (simp only: of_int_le_iff)
    moreover have "y < real_of_int (n + 1)" unfolding n_def by linarith
    ultimately have "y < 2 ^ nat (bitlen n)" by simp
    moreover have "nat (bitlen n) = Suc (nat k)" using b1 by (simp add: k_def)
    ultimately have yhi: "y < 2 * 2 ^ nat k" by simp
    have pk: "(2::real) powi (- k) = 1 / 2 ^ nat k"
      using k0 by (simp add: power_int_minus power_int_def field_simps)
    have pk1: "(2::real) powi (- k - 1) = 1 / (2 * 2 ^ nat k)"
    proof -
      have "(2::real) powi (- k - 1) = 2 powi (- k) * 2 powi (- 1)"
        by (simp add: power_int_diff)
      then show ?thesis unfolding pk by simp
    qed
    have pk2: "(2::real) powi (- k + 1) = 2 / 2 ^ nat k"
    proof -
      have "(2::real) powi (- k + 1) = 2 powi (- k) * 2"
        by (rule power_int_add_1) simp
      then show ?thesis unfolding pk by simp
    qed
    have xy: "x = 1 / y" using assms by (simp add: y_def)
    have ypos: "0 < y" using y1 by simp
    have xhi: "x \<le> 1 / 2 ^ nat k"
      unfolding xy using ylo ypos by (simp add: field_simps)
    have xlo: "1 / (2 * 2 ^ nat k) < x"
      unfolding xy using yhi ypos by (simp add: field_simps)
    have e: "ilog2 x = (if 2 powi (- k) \<le> x then - k else - k - 1)"
      using False by (simp add: ilog2_def Let_def k_def n_def y_def)
    show ?thesis
    proof (cases "2 powi (- k) \<le> x")
      case True
      then have i: "ilog2 x = - k" using e by simp
      have "(1::real) / 2 ^ nat k < 2 / 2 ^ nat k" by (simp add: divide_strict_right_mono)
      then have "x < 2 / 2 ^ nat k" using xhi by linarith
      then show ?thesis unfolding i pk2 using True by simp
    next
      case False
      then have i: "ilog2 x = - k - 1" using e by simp
      have "x < 2 powi (- k)" using False by simp
      moreover have "- k - 1 + 1 = - k" by simp
      ultimately show ?thesis unfolding i pk1 using xlo by simp
    qed
  qed
  show "2 powi ilog2 x \<le> x" using both by blast
  show "x < 2 powi (ilog2 x + 1)" using both by blast
qed

lemma ilog2_mono:
  assumes "0 < x" and "x \<le> y"
  shows "ilog2 x \<le> ilog2 y"
proof (rule ccontr)
  assume "\<not> ilog2 x \<le> ilog2 y"
  then have "ilog2 y + 1 \<le> ilog2 x" by simp
  then have "(2::real) powi (ilog2 y + 1) \<le> 2 powi ilog2 x"
    by (intro power_int_increasing) simp_all
  moreover have "y < 2 powi (ilog2 y + 1)" using ilog2_bounds(2)[of y] assms by simp
  moreover have "2 powi ilog2 x \<le> x" using ilog2_bounds(1)[OF assms(1)] .
  ultimately show False using assms(2) by linarith
qed

lemma round_half_even_bounds:
  "\<lfloor>x\<rfloor> \<le> round_half_even x" and "round_half_even x \<le> \<lceil>x\<rceil>"
proof -
  show "\<lfloor>x\<rfloor> \<le> round_half_even x" by (simp add: round_half_even_def Let_def)
  have "x - of_int \<lfloor>x\<rfloor> \<noteq> 0 \<Longrightarrow> \<lceil>x\<rceil> = \<lfloor>x\<rfloor> + 1"
    by (metis ceiling_altdef eq_iff_diff_eq_0)
  moreover have "x - of_int \<lfloor>x\<rfloor> = 0 \<Longrightarrow> round_half_even x = \<lfloor>x\<rfloor>"
    by (simp add: round_half_even_def Let_def)
  moreover have "round_half_even x \<le> \<lfloor>x\<rfloor> + 1" by (simp add: round_half_even_def Let_def)
  moreover have "\<lfloor>x\<rfloor> \<le> \<lceil>x\<rceil>" by (rule floor_le_ceiling)
  ultimately show "round_half_even x \<le> \<lceil>x\<rceil>" by fastforce
qed

lemma round_half_even_mono:
  assumes "x \<le> y"
  shows "round_half_even x \<le> round_half_even y"
proof (cases "\<lfloor>x\<rfloor> = \<lfloor>y\<rfloor>")
  case True
  have "x - of_int \<lfloor>x\<rfloor> \<le> y - of_int \<lfloor>x\<rfloor>" using assms by simp
  then show ?thesis unfolding round_half_even_def Let_def True[symmetric] by auto
next
  case False
  have "\<lfloor>x\<rfloor> \<le> \<lfloor>y\<rfloor>" using assms by (rule floor_mono)
  then have "\<lfloor>x\<rfloor> + 1 \<le> \<lfloor>y\<rfloor>" using False by simp
  moreover have "round_half_even x \<le> \<lfloor>x\<rfloor> + 1" by (simp add: round_half_even_def Let_def)
  moreover have "\<lfloor>y\<rfloor> \<le> round_half_even y" by (rule round_half_even_bounds)
  ultimately show ?thesis by linarith
qed

lemma round_half_even_of_int [simp]: "round_half_even (of_int n) = n"
  by (simp add: round_half_even_def)

lemma to_double_pos:
  assumes "0 < x"
  shows "to_double x = of_int (round_half_even (x / 2 powi (ilog2 x - 52))) * 2 powi (ilog2 x - 52)"
  using assms by (simp add: to_double_def Let_def)

lemma mantissa_bounds:
  assumes "0 < x"
  shows "2 ^ 52 \<le> x / 2 powi (ilog2 x - 52)" and "x / 2 powi (ilog2 x - 52) < 2 ^ 53"
proof -
  have p: "(0::real) < 2 powi (ilog2 x - 52)" by simp
  have a: "(2::real) powi ilog2 x = 2 ^ 52 * 2 powi (ilog2 x - 52)"
    by (simp add: power_int_diff)
  have b: "(2::real) powi (ilog2 x + 1) = 2 ^ 53 * 2 powi (ilog2 x - 52)"
    by (simp add: power_int_diff power_int_add)
  show "2 ^ 52 \<le> x / 2 powi (ilog2 x - 52)"
    using ilog2_bounds(1)[OF assms] p unfolding a by (simp add: pos_le_divide_eq)
  show "x / 2 powi (ilog2 x - 52) < 2 ^ 53"
    using ilog2_bounds(2)[OF assms] p unfolding b by (simp add: pos_divide_less_eq)
qed

lemma to_double_bounds:
  assumes "0 < x"
  shows "2 ^ 52 * 2 powi (ilog2 x - 52) \<le> to_double x"
    and "to_double x \<le> 2 ^ 53 * 2 powi (ilog2 x - 52)"
proof -
  let ?m = "round_half_even (x / 2 powi (ilog2 x - 52))"
  have "round_half_even (of_int (2 ^ 52)) \<le> ?m"
    using mantissa_bounds(1)[OF assms] by (intro round_half_even_mono) simp
  then have lo: "2 ^ 52 \<le> ?m" by (simp only: round_half_even_of_int)
  have "?m \<le> round_half_even (of_int (2 ^ 53))"
    using mantissa_bounds(2)[OF assms] by (intro round_half_even_mono) simp
  then have hi: "?m \<le> 2 ^ 53" by (simp only: round_half_even_of_int)
  have p: "(0::real) \<le> 2 powi (ilog2 x - 52)" by simp
  have "real_of_int (2 ^ 52) \<le> real_of_int ?m" using lo by (simp only: of_int_le_iff)
  then have "real_of_int (2 ^ 52) * 2 powi (ilog2 x - 52) \<le> real_of_int ?m * 2 powi (ilog2 x - 52)"
    using p by (rule mult_right_mono)
  then show "2 ^ 52 * 2 powi (ilog2 x - 52) \<le> to_double x"
    unfolding to_double_pos[OF assms] by simp
  have "real_of_int ?m \<le> real_of_int (2 ^ 53)" using hi by (simp only: of_int_le_iff)
  then have "real_of_int ?m * 2 powi (ilog2 x - 52) \<le> real_of_int (2 ^ 53) * 2 powi (ilog2 x - 52)"
    using p by (rule mult_right_mono)
  then show "to_double x \<le> 2 ^ 53 * 2 powi (ilog2 x - 52)"
    unfolding to_double_pos[OF assms] by simp
qed

lemma to_double_zero [simp]: "to_double 0 = 0"
  by (simp add: to_double_def)

lemma to_double_nonneg: "0 \<le> x \<Longrightarrow> 0 \<le> to_double x"
proof (cases "x = 0")
  case True
  then show ?thesis by simp
next
  case False
  assume "0 \<le> x"
  then have x: "0 < x" using False by simp
  have "(0::real) \<le> 2 ^ 52 * 2 powi (ilog2 x - 52)" by simp
  then show ?thesis using to_double_bounds(1)[OF x] by linarith
qed

lemma to_double_mono_pos:
  assumes "0 < x" and "x \<le> y"
  shows "to_double x \<le> to_double y"
proof -
  have y: "0 < y" using assms by linarith
  have le: "ilog2 x \<le> ilog2 y" using assms by (rule ilog2_mono)
  show ?thesis
  proof (cases "ilog2 x = ilog2 y")
    case True
    let ?s = "(2::real) powi (ilog2 y - 52)"
    have s: "0 < ?s" by simp
    have "x / ?s \<le> y / ?s" using assms(2) s by (simp add: divide_right_mono)
    then have "round_half_even (x / ?s) \<le> round_half_even (y / ?s)"
      by (rule round_half_even_mono)
    then have "real_of_int (round_half_even (x / ?s)) \<le> real_of_int (round_half_even (y / ?s))"
      by (simp only: of_int_le_iff)
    then have "real_of_int (round_half_even (x / ?s)) * ?s \<le> real_of_int (round_half_even (y / ?s)) * ?s"
      using s by (simp add: mult_right_mono)
    then show ?thesis unfolding to_double_pos[OF assms(1)] to_double_pos[OF y] True .
  next
    case False
    then have "ilog2 x + 1 \<le> ilog2 y" using le by simp
    then have "(2::real) powi (ilog2 x + 1) \<le> 2 powi ilog2 y"
      by (intro power_int_increasing) simp_all
    moreover have "(2::real) powi (ilog2 x + 1) = 2 ^ 53 * 2 powi (ilog2 x - 52)"
      by (simp add: power_int_diff power_int_add)
    moreover have "(2::real) powi ilog2 y = 2 ^ 52 * 2 powi (ilog2 y - 52)"
      by (simp add: power_int_diff)
    ultimately have "2 ^ 53 * 2 powi (ilog2 x - 52) \<le> (2::real) ^ 52 * 2 powi (ilog2 y - 52)"
      by simp
    then show ?thesis
      using to_double_bounds(2)[OF assms(1)] to_double_bounds(1)[OF y] by linarith
  qed
qed

lemma to_double_mono:
  assumes "0 \<le> x" and "x \<le> y"
  shows "to_double x \<le> to_double y"
proof (cases "x = 0")
  case True
  then show ?thesis using assms to_double_nonneg[of y] by simp
next
  case False
  then show ?thesis using assms to_double_mono_pos[of x y] by simp
qed

lemma float_mul_mono: "0 \<le> x \<Longrightarrow> x \<le> y \<Longrightarrow> float_mul x 100 \<le> float_mul y 100"
  unfolding float_mul_def by (rule to_double_mono) simp_all

lemma float_mul_nonneg: "0 \<le> x \<Longrightarrow> 0 \<le> float_mul x 100"
  unfolding float_mul_def by (rule to_double_nonneg) simp

lemma round_half_even_nonneg: "0 \<le> x \<Longrightarrow> 0 \<le> round_half_even x"
proof -
  assume "0 \<le> x"
  then have "0 \<le> \<lfloor>x\<rfloor>" by simp
  then show ?thesis using round_half_even_bounds(1)[of x] by linarith
qed

lemma round2_mono: "0 \<le> x \<Longrightarrow> x \<le> y \<Longrightarrow> round2 x \<le> round2 y"
  unfolding round2_def
proof (rule to_double_mono)
  assume "0 \<le> x" "x \<le> y"
  then show "0 \<le> real_of_int (round_half_even (x * 100)) / 100"
    using round_half_even_nonneg[of "x * 100"] by simp
  have "round_half_even (x * 100) \<le> round_half_even (y * 100)"
    using \<open>x \<le> y\<close> by (intro round_half_even_mono) simp
  then show "real_of_int (round_half_even (x * 100)) / 100 \<le> real_of_int (round_half_even (y * 100)) / 100"
    by (simp add: divide_right_mono)
qed

section \<open>Providers and the chain\<close>

lemma gemini_parse_shape:
  "gemini_parse lib text_out = Inr v \<Longrightarrow> v = PNone \<or> (\<exists>ss. v = PList (map PStr ss))"
  unfolding gemini_parse_def
  by (auto split: pyval.splits sum.splits simp: comp_def intro: exI[of _ "map (py_str lib) _"])

lemma call_gemini_shape:
  "\<exists>v. call_gemini_suggestions lib w r j = Inr v \<and> (v = PNone \<or> (\<exists>ss. v = PList (map PStr ss)))"
proof (cases "truthy_opt (getenv_or w ''GOOGLE_API_KEY'' ''GEMINI_API_KEY'')")
  case False
  then have "call_gemini_suggestions lib w r j = Inr (PList (map PStr []))"
    by (simp add: call_gemini_suggestions_def Let_def)
  then show ?thesis by blast
next
  case True
  define url where "url = u ''https://generativelanguage.googleapis.com/v1beta2/models/''
      @ (case getenv w ''GEMINI_MODEL'' of Some m \<Rightarrow> m | None \<Rightarrow> u ''text-bison-001'')
      @ u '':generateText?key=''
      @ (case getenv_or w ''GOOGLE_API_KEY'' ''GEMINI_API_KEY'' of Some k \<Rightarrow> k | None \<Rightarrow> [])"
  define payload where "payload = PDict [(u ''prompt'', PDict [(u ''text'', PStr (gemini_prompt r j))]),
                                (u ''temperature'', PFloat (Finite (to_double (2 / 10)))),
                                (u ''maxOutputTokens'', PInt 512)]"
  define body where "body = (case requests_post w url payload of
                      Inl e \<Rightarrow> Inl e
                    | Inr data \<Rightarrow>
                        (case gemini_text_out lib data of
                           Inl e \<Rightarrow> Inl e
                         | Inr text_out \<Rightarrow> gemini_parse lib text_out))"
  have c: "call_gemini_suggestions lib w r j = (case body of Inl e \<Rightarrow> Inr (PList []) | Inr v \<Rightarrow> Inr v)"
    using True by (simp add: call_gemini_suggestions_def Let_def body_def url_def payload_def)
  show ?thesis
  proof (cases body)
    case (Inl e)
    then have "call_gemini_suggestions lib w r j = Inr (PList (map PStr []))" using c by simp
    then show ?thesis by blast
  next
    case (Inr v)
    then obtain text_out where "gemini_parse lib text_out = Inr v"
      unfolding body_def by (auto split: sum.splits)
    then have "v = PNone \<or> (\<exists>ss. v = PList (map PStr ss))" by (rule gemini_parse_shape)
    then show ?thesis using c Inr by simp
  qed
qed

lemma call_openai_shape:
  "\<exists>xs. call_openai_suggestions lib w r j = Inr (PList xs)"
  unfolding call_openai_suggestions_def
  by (auto split: sum.splits pyval.splits)

lemma heuristic_suggestions_length: "2 \<le> length (heuristic_suggestions R J)"
  by (simp add: heuristic_suggestions_def Let_def)

lemma suggestion_chain_cases:
  assumes a: "call_gemini_suggestions lib w r j = Inr va"
    and b: "call_openai_suggestions lib w r j = Inr vb"
  shows "suggestion_chain lib w r j R J =
     Inr (if gemini_configured w \<and> truthy va then (va, [Gemini])
          else if openai_configured w \<and> truthy vb
               then (vb, (if gemini_configured w then [Gemini] else []) @ [OpenAI])
               else (PList (map PStr (heuristic_suggestions R J)),
                     (if gemini_configured w then [Gemini] else [])
                       @ (if openai_configured w then [OpenAI] else []) @ [Heuristic]))"
  unfolding suggestion_chain_def gemini_configured_def openai_configured_def a b
  by (simp add: Let_def)

lemma compute_match_spec: "compute_match R J = Inr (spec_score R J)"
proof (cases "J = []")
  case True
  then show ?thesis by (simp add: compute_match_def spec_score_def)
next
  case False
  then have pos: "0 < card (set J)" by (metis card_gt_0_iff List.finite_set set_empty)
  have nz: "card (set J) \<noteq> 0" using pos by arith
  have m: "max 1 (card (set J)) = card (set J)" using pos by arith
  have t: "true_div (card (set R \<inter> set J)) (card (set J))
      = Inr (to_double (real (card (set R \<inter> set J)) / real (card (set J))))"
    using nz by (simp add: true_div_def)
  show ?thesis unfolding compute_match_def spec_score_def Let_def m t using False by simp
qed

lemma spec_score_no_overlap: "set R \<inter> set J = {} \<Longrightarrow> spec_score R J = 0"
  by (simp add: spec_score_def float_mul_def round2_def round_half_even_def)

lemma spec_score_mono:
  assumes "J \<noteq> []" and "card (set R \<inter> set J) \<le> card (set R' \<inter> set J)"
  shows "spec_score R J \<le> spec_score R' J"
proof -
  let ?n = "real (card (set J))"
  have q: "real (card (set R \<inter> set J)) / ?n \<le> real (card (set R' \<inter> set J)) / ?n"
    using assms(2) by (simp add: divide_right_mono)
  have q0: "0 \<le> real (card (set R \<inter> set J)) / ?n" by simp
  have d: "to_double (real (card (set R \<inter> set J)) / ?n) \<le> to_double (real (card (set R' \<inter> set J)) / ?n)"
    using q0 q by (rule to_double_mono)
  have d0: "0 \<le> to_double (real (card (set R \<inter> set J)) / ?n)" using q0 by (rule to_double_nonneg)
  have m: "float_mul (to_double (real (card (set R \<inter> set J)) / ?n)) 100
      \<le> float_mul (to_double (real (card (set R' \<inter> set J)) / ?n)) 100"
    using d0 d by (rule float_mul_mono)
  have m0: "0 \<le> float_mul (to_double (real (card (set R \<inter> set J)) / ?n)) 100"
    using d0 by (rule float_mul_nonneg)
  show ?thesis using assms(1) round2_mono[OF m0 m] by (simp add: spec_score_def)
qed

lemmas float_eval = to_double_def ilog2_def compute_bitlen round_half_even_def Let_def
  float_mul_def round2_def

lemma two_thirds_score: "round2 (float_mul (to_double (2 / 3)) 100) = to_double (6667 / 100)"
proof -
  have 1: "to_double (2 / 3) = 6004799503160661 / 2 ^ 53" by (simp add: float_eval)
  have 2: "float_mul (6004799503160661 / 2 ^ 53) 100 = 2345624805922133 / 2 ^ 45"
    by (simp add: float_eval)
  have 3: "round2 (2345624805922133 / 2 ^ 45) = to_double (6667 / 100)"
    by (simp add: float_eval)
  show ?thesis unfolding 1 2 3 ..
qed

lemma example_resume_skills:
  "extract_skills tab example_resume COMMON_SKILLS = map u [''aws'', ''docker'', ''python'', ''react'']"
  by (simp add: example_resume_def extract_skills_list string_eval COMMON_SKILLS_def)

lemma example_job_skills:
  "extract_skills tab example_job COMMON_SKILLS = map u [''docker'', ''kubernetes'', ''python'']"
  by (simp add: example_job_def extract_skills_list string_eval COMMON_SKILLS_def)

lemma empty_text_skills: "extract_skills tab [] COMMON_SKILLS = []"
  by (simp add: extract_skills_list string_eval COMMON_SKILLS_def)

lemma example_score:
  "spec_score (map u [''aws'', ''docker'', ''python'', ''react''])
     (map u [''docker'', ''kubernetes'', ''python'']) = to_double (6667 / 100)"
proof -
  have i: "set (map u [''aws'', ''docker'', ''python'', ''react''])
     \<inter> set (map u [''docker'', ''kubernetes'', ''python'']) = {u ''docker'', u ''python''}"
    by (auto simp: u_def)
  have c1: "card {u ''docker'', u ''python''} = 2" by (simp add: u_def)
  have c2: "card (set (map u [''docker'', ''kubernetes'', ''python''])) = 3" by (simp add: u_def)
  show ?thesis unfolding spec_score_def i c1 c2 using two_thirds_score by simp
qed

lemma suggestion_chain_total:
  "\<exists>xs called. suggestion_chain lib w r j R J = Inr (PList xs, called) \<and> xs \<noteq> []"
proof -
  obtain va where a: "call_gemini_suggestions lib w r j = Inr va"
    and s: "va = PNone \<or> (\<exists>ss. va = PList (map PStr ss))"
    using call_gemini_shape by blast
  obtain xb where b: "call_openai_suggestions lib w r j = Inr (PList xb)"
    using call_openai_shape by blast
  have h: "heuristic_suggestions R J \<noteq> []" using heuristic_suggestions_length[of R J] by auto
  show ?thesis
  proof (cases "gemini_configured w \<and> truthy va")
    case True
    then obtain ss where v: "va = PList (map PStr ss)" using s by auto
    then have "map PStr ss \<noteq> []" using True by simp
    moreover have "suggestion_chain lib w r j R J = Inr (PList (map PStr ss), [Gemini])"
      unfolding suggestion_chain_cases[OF a b] using True v by simp
    ultimately show ?thesis by blast
  next
    case False
    then have g: "(gemini_configured w \<and> truthy va) = False" by blast
    show ?thesis
    proof (cases "openai_configured w \<and> truthy (PList xb)")
      case True
      then have "xb \<noteq> []" by simp
      moreover have "\<exists>called. suggestion_chain lib w r j R J = Inr (PList xb, called)"
        unfolding suggestion_chain_cases[OF a b] g using True by simp
      ultimately show ?thesis by blast
    next
      case False
      then have o: "(openai_configured w \<and> truthy (PList xb)) = False" by blast
      have "\<exists>called. suggestion_chain lib w r j R J
          = Inr (PList (map PStr (heuristic_suggestions R J)), called)"
        unfolding suggestion_chain_cases[OF a b] g o by simp
      moreover have "map PStr (heuristic_suggestions R J) \<noteq> []" using h by simp
      ultimately show ?thesis by blast
    qed
  qed
qed

lemma analyze_total:
  "\<exists>res called. analyze_resume_and_job lib w r j = Inr (res, called) \<and>
     skills_resume res = extract_skills (case_tab lib) r COMMON_SKILLS \<and>
     skills_job res = extract_skills (case_tab lib) j COMMON_SKILLS \<and>
     match_score res = spec_score (skills_resume res) (skills_job res) \<and>
     suggestion_chain lib w r j (skills_resume res) (skills_job res) = Inr (suggestions res, called)"
proof -
  let ?R = "extract_skills (case_tab lib) r COMMON_SKILLS"
  let ?J = "extract_skills (case_tab lib) j COMMON_SKILLS"
  obtain xs called where c: "suggestion_chain lib w r j ?R ?J = Inr (PList xs, called)"
    using suggestion_chain_total by blast
  show ?thesis
    by (simp add: analyze_resume_and_job_def Let_def compute_match_spec c)
qed

lemma heuristic_suggestions_list:
  "heuristic_suggestions R J =
     (if filter (\<lambda>x. x \<notin> set R) J \<noteq> []
      then [u ''Skills to add or highlight: '' @ join (u '', '') (sort (remdups (filter (\<lambda>x. x \<notin> set R) J)))]
      else [])
     @ [quantify_line, projects_line]
     @ (if u ''machine learning'' \<in> set J \<or> u ''nlp'' \<in> set J then [metrics_line] else [])"
proof -
  have s: "set J - set R = set (filter (\<lambda>x. x \<notin> set R) J)" by auto
  have e: "(set J - set R \<noteq> {}) = (filter (\<lambda>x. x \<notin> set R) J \<noteq> [])"
    by (auto simp: filter_empty_conv)
  have l: "sorted_list_of_set (set J - set R) = sort (remdups (filter (\<lambda>x. x \<notin> set R) J))"
    unfolding s by (rule sorted_list_of_set_sort_remdups)
  show ?thesis
    unfolding heuristic_suggestions_def Let_def e l quantify_line_def projects_line_def metrics_line_def
    by simp
qed

lemma example_heuristics:
  "heuristic_suggestions (map u [''aws'', ''docker'', ''python'', ''react''])
     (map u [''docker'', ''kubernetes'', ''python''])
   = [u ''Skills to add or highlight: kubernetes'', quantify_line, projects_line]"
  unfolding heuristic_suggestions_list by (simp add: u_def)

lemma chain_without_provider:
  assumes "\<not> gemini_configured w" and "\<not> openai_configured w"
  shows "suggestion_chain lib w r j R J = Inr (PList (map PStr (heuristic_suggestions R J)), [Heuristic])"
proof -
  obtain va where a: "call_gemini_suggestions lib w r j = Inr va" using call_gemini_shape by blast
  obtain xb where b: "call_openai_suggestions lib w r j = Inr (PList xb)"
    using call_openai_shape by blast
  show ?thesis unfolding suggestion_chain_cases[OF a b] using assms by simp
qed

lemma example_analysis:
  "\<exists>res called. analyze_resume_and_job lib w example_resume example_job = Inr (res, called) \<and>
     skills_resume res = map u [''aws'', ''docker'', ''python'', ''react''] \<and>
     skills_job res = map u [''docker'', ''kubernetes'', ''python''] \<and>
     match_score res = to_double (6667 / 100) \<and>
     (\<not> gemini_configured w \<and> \<not> openai_configured w \<longrightarrow>
        called = [Heuristic] \<and>
        suggestions res = PList (map PStr [u ''Skills to add or highlight: kubernetes'',
                                            quantify_line, projects_line]))"
proof -
  obtain res called where r: "analyze_resume_and_job lib w example_resume example_job = Inr (res, called)"
     "skills_resume res = extract_skills (case_tab lib) example_resume COMMON_SKILLS"
     "skills_job res = extract_skills (case_tab lib) example_job COMMON_SKILLS"
     "match_score res = spec_score (skills_resume res) (skills_job res)"
     "suggestion_chain lib w example_resume example_job (skills_resume res) (skills_job res)
        = Inr (suggestions res, called)"
    using analyze_total by blast
  have R: "skills_resume res = map u [''aws'', ''docker'', ''python'', ''react'']"
    unfolding r(2) by (rule example_resume_skills)
  have J: "skills_job res = map u [''docker'', ''kubernetes'', ''python'']"
    unfolding r(3) by (rule example_job_skills)
  have S: "match_score res = to_double (6667 / 100)"
    unfolding r(4) R J by (rule example_score)
  have H: "\<not> gemini_configured w \<and> \<not> openai_configured w \<longrightarrow>
        called = [Heuristic] \<and>
        suggestions res = PList (map PStr [u ''Skills to add or highlight: kubernetes'',
                                            quantify_line, projects_line])"
  proof
    assume n: "\<not> gemini_configured w \<and> \<not> openai_configured w"
    have "suggestion_chain lib w example_resume example_job (skills_resume res) (skills_job res)
        = Inr (PList (map PStr (heuristic_suggestions (skills_resume res) (skills_job res))), [Heuristic])"
      using n by (intro chain_without_provider) simp_all
    then show "called = [Heuristic] \<and>
        suggestions res = PList (map PStr [u ''Skills to add or highlight: kubernetes'',
                                            quantify_line, projects_line])"
      using r(5) unfolding R J example_heuristics by simp
  qed
  show ?thesis using r(1) R J S H by blast
qed

lemma sample_world_simps:
  "gemini_configured (sample_world gkey gresp okey oresp) = gkey"
  "openai_configured (sample_world gkey gresp okey oresp) = okey"
  "requests_post (sample_world gkey gresp okey oresp) url payload = gresp"
  "chat_completion (sample_world gkey gresp okey oresp) prompt = oresp"
  "truthy_opt (getenv (sample_world gkey gresp okey oresp) ''OPENAI_API_KEY'') = okey"
  "openai_module (sample_world gkey gresp okey oresp) = okey"
  by (simp_all add: gemini_configured_def openai_configured_def sample_world_def getenv_or_def
      getenv_def truthy_opt_def u_def)

text \<open>
  C1. \<open>compute_match\<close> returns 0.0 when the list of job skills is empty, and otherwise
  \<open>round(|set R \<inter> set J| / |set J| * 100, 2)\<close>, computed in floats (\<open>spec_score\<close>). For
  the two texts of Example 1 the analysis gives the score 66.67 (the float nearest to
  6667/100) in every world, so also when no provider is configured, and for an empty job
  description the job skills are empty and the score is 0.0 whatever the resume is.
\<close>

theorem compute_match_formula:
  "compute_match R J = Inr (spec_score R J) \<and>
   (J = [] \<longrightarrow> compute_match R J = Inr 0) \<and>
   (\<exists>res called. analyze_resume_and_job lib w example_resume example_job = Inr (res, called) \<and>
      match_score res = to_double (6667 / 100)) \<and>
   (\<exists>res called. analyze_resume_and_job lib w r [] = Inr (res, called) \<and>
      skills_job res = [] \<and> match_score res = 0)"
proof (intro conjI impI)
  show "compute_match R J = Inr (spec_score R J)" by (rule compute_match_spec)
  show "compute_match R J = Inr 0" if "J = []" using that by (simp add: compute_match_def)
  show "\<exists>res called. analyze_resume_and_job lib w example_resume example_job = Inr (res, called) \<and>
      match_score res = to_double (6667 / 100)"
    using example_analysis[of lib w] by blast
  obtain res called where r: "analyze_resume_and_job lib w r [] = Inr (res, called)"
     "skills_job res = extract_skills (case_tab lib) [] COMMON_SKILLS"
     "match_score res = spec_score (skills_resume res) (skills_job res)"
    using analyze_total by blast
  have J: "skills_job res = []" unfolding r(2) by (rule empty_text_skills)
  have "match_score res = 0" unfolding r(3) J by (simp add: spec_score_def)
  then show "\<exists>res called. analyze_resume_and_job lib w r [] = Inr (res, called) \<and>
      skills_job res = [] \<and> match_score res = 0"
    using r(1) J by blast
qed

theorem compute_match_formula_witness:
  "compute_match (map u [''aws'', ''docker'', ''python'', ''react''])
     (map u [''docker'', ''kubernetes'', ''python'']) = Inr (to_double (6667 / 100)) \<and>
   compute_match (map u [''aws'', ''docker'', ''python'', ''react'']) [] = Inr 0"
proof -
  have "compute_match (map u [''aws'', ''docker'', ''python'', ''react''])
      (map u [''docker'', ''kubernetes'', ''python''])
    = Inr (spec_score (map u [''aws'', ''docker'', ''python'', ''react''])
        (map u [''docker'', ''kubernetes'', ''python'']))"
    using compute_match_formula[where R = "map u [''aws'', ''docker'', ''python'', ''react'']"
        and J = "map u [''docker'', ''kubernetes'', ''python'']"]
    by blast
  moreover have "compute_match (map u [''aws'', ''docker'', ''python'', ''react'']) [] = Inr 0"
    using compute_match_formula[where R = "map u [''aws'', ''docker'', ''python'', ''react'']"
        and J = "[]"]
    by blast
  ultimately show ?thesis unfolding example_score by blast
qed




text \<open>
  C4. Neither provider raises (\<open>call_gemini_shape\<close>, \<open>call_openai_shape\<close> above: the
  result is never \<open>Inl\<close>). But provider A does not always return a sequence: when the text
  it extracted parses as JSON and the parsed value is not a list, the inner \<open>try\<close> ends
  without a \<open>return\<close> and the function returns \<open>None\<close>. This happens for the response
  body \<open>{}\<close>, whose text is \<open>json.dumps({})\<close>.
\<close>

theorem call_gemini_returns_None:
  assumes "gemini_configured w"
    and "\<forall>url payload. requests_post w url payload = Inr data"
    and "gemini_text_out lib data = Inr (PStr t)"
    and "json_loads lib t = Inr v"
    and "\<forall>xs. v \<noteq> PList xs"
  shows "call_gemini_suggestions lib w r j = Inr PNone"
proof -
  have "gemini_parse lib (PStr t) = Inr PNone"
    using assms(4,5) by (cases v) (simp_all add: gemini_parse_def)
  then show ?thesis
    using assms(1,2,3)
    by (simp add: call_gemini_suggestions_def Let_def gemini_configured_def)
qed

lemma sample_empty_object:
  "gemini_text_out sample_library (PDict []) = Inr (PStr (u ''{}''))"
  "json_loads sample_library (u ''{}'') = Inr (PDict [])"
  by (simp_all add: gemini_text_out_def candidates_text_def output_text_def dict_get_def py_or_def
      sample_library_def sample_json_dumps_def sample_json_loads_def u_def)

theorem call_gemini_returns_None_witness:
  "call_gemini_suggestions sample_library
     (sample_world True (Inr (PDict [])) False (Inl OpenAIError)) example_resume example_job
   = Inr PNone"
proof (rule call_gemini_returns_None)
  show "gemini_configured (sample_world True (Inr (PDict [])) False (Inl OpenAIError))"
    by (simp add: sample_world_simps)
  show "\<forall>url payload. requests_post (sample_world True (Inr (PDict [])) False (Inl OpenAIError))
      url payload = Inr (PDict [])"
    by (simp add: sample_world_simps)
  show "gemini_text_out sample_library (PDict []) = Inr (PStr (u ''{}''))"
    by (rule sample_empty_object)
  show "json_loads sample_library (u ''{}'') = Inr (PDict [])" by (rule sample_empty_object)
  show "\<forall>xs. PDict [] \<noteq> PList xs" by simp
qed

text \<open>
  C9, as stated, fails for provider B: a response that is a JSON array is returned
  whole, here an array of eight strings.
\<close>

theorem call_openai_eight_counterexample:
  "call_openai_suggestions sample_library
     (sample_world False (Inl RequestException) True (Inr (PStr eight_points_json)))
     example_resume example_job = Inr (PList (map PStr eight_points)) \<and>
   \<not> length (map PStr eight_points) \<le> 7"
proof -
  have n: "eight_points_json \<noteq> u ''{}''"
    by (simp add: eight_points_json_def eight_points_def u_def)
  have l: "json_loads sample_library eight_points_json = Inr (PList (map PStr eight_points))"
    using n by (simp add: sample_library_def sample_json_loads_def)
  have "call_openai_suggestions sample_library
     (sample_world False (Inl RequestException) True (Inr (PStr eight_points_json)))
     example_resume example_job = Inr (PList (map PStr eight_points))"
    by (simp add: call_openai_suggestions_def sample_world_simps l)
  then show ?thesis by (simp add: eight_points_def)
qed

text \<open>
  C9, amended. The line-split path of provider A (the text is not JSON) returns the
  non-empty stripped lines of the text, each without its leading bullets, and at most 7
  of them. Provider B returns at most 7 suggestions unless the response text parses as a
  JSON array, which it returns whole, as provider A does.
\<close>

theorem provider_line_caps:
  "(gemini_configured w \<and> (\<forall>url payload. requests_post w url payload = Inr data) \<and>
      gemini_text_out lib data = Inr (PStr t) \<and> json_loads lib t = Inl e \<longrightarrow>
        call_gemini_suggestions lib w r j =
          Inr (PList (map PStr (take 7 (map strip_bullets
                 (filter (\<lambda>line. line \<noteq> []) (map strip (splitlines t))))))) \<and>
        length (take 7 (map strip_bullets
                 (filter (\<lambda>line. line \<noteq> []) (map strip (splitlines t))))) \<le> 7) \<and>
   (\<exists>xs. call_openai_suggestions lib w r j = Inr (PList xs) \<and>
      (length xs \<le> 7 \<or>
       (\<exists>text. chat_completion w (openai_prompt r j) = Inr (PStr text) \<and>
               json_loads lib text = Inr (PList xs))))"
proof (intro conjI impI)
  assume h: "gemini_configured w \<and> (\<forall>url payload. requests_post w url payload = Inr data) \<and>
      gemini_text_out lib data = Inr (PStr t) \<and> json_loads lib t = Inl e"
  then have "gemini_parse lib (PStr t) = Inr (PList (map PStr (take 7 (cleaned_lines t))))"
    by (simp add: gemini_parse_def)
  then show "call_gemini_suggestions lib w r j =
          Inr (PList (map PStr (take 7 (map strip_bullets
                 (filter (\<lambda>line. line \<noteq> []) (map strip (splitlines t)))))))"
    using h by (simp add: call_gemini_suggestions_def Let_def gemini_configured_def cleaned_lines_def)
  show "length (take 7 (map strip_bullets
                 (filter (\<lambda>line. line \<noteq> []) (map strip (splitlines t))))) \<le> 7"
    by simp
next
  show "\<exists>xs. call_openai_suggestions lib w r j = Inr (PList xs) \<and>
      (length xs \<le> 7 \<or>
       (\<exists>text. chat_completion w (openai_prompt r j) = Inr (PStr text) \<and>
               json_loads lib text = Inr (PList xs)))"
  proof (cases "\<not> openai_module w \<or> \<not> truthy_opt (getenv w ''OPENAI_API_KEY'')")
    case True
    then have "call_openai_suggestions lib w r j = Inr (PList [])"
      by (auto simp: call_openai_suggestions_def)
    then show ?thesis by simp
  next
    case False
    then have c: "call_openai_suggestions lib w r j =
      (case (case chat_completion w (openai_prompt r j) of
                   Inl e \<Rightarrow> Inl e
                 | Inr (PStr text) \<Rightarrow>
                     (case json_loads lib text of
                        Inl e \<Rightarrow> Inl e
                      | Inr (PList xs) \<Rightarrow> Inr (PList xs)
                      | Inr other \<Rightarrow>
                          Inr (PList (map PStr (take 7
                                 (map (strip_chars (u ''-* '' @ [9]))
                                      (filter (\<lambda>l. strip l \<noteq> []) (splitlines text)))))))
                 | Inr other \<Rightarrow> Inl TypeError) of
             Inl e \<Rightarrow> Inr (PList [])
           | Inr v \<Rightarrow> Inr v)"
      by (simp add: call_openai_suggestions_def)
    show ?thesis
    proof (cases "chat_completion w (openai_prompt r j)")
      case (Inl e)
      then have "call_openai_suggestions lib w r j = Inr (PList [])" using c by simp
      then show ?thesis by simp
    next
      case (Inr content)
      show ?thesis
      proof (cases "\<exists>text. content = PStr text")
        case False
        then have "call_openai_suggestions lib w r j = Inr (PList [])"
          using c Inr by (cases content) simp_all
        then show ?thesis by simp
      next
        case True
        then obtain s where t: "content = PStr s" by blast
        show ?thesis
        proof (cases "json_loads lib s")
          case (Inl e)
          then have "call_openai_suggestions lib w r j = Inr (PList [])" using c Inr t by simp
          then show ?thesis by simp
        next
          case v: (Inr v)
          show ?thesis
          proof (cases "\<exists>xs. v = PList xs")
            case True
            then obtain xs where "v = PList xs" by blast
            then have "call_openai_suggestions lib w r j = Inr (PList xs)"
              "json_loads lib s = Inr (PList xs)"
              using c Inr t v by simp_all
            then show ?thesis using Inr t by blast
          next
            case False
            let ?ls = "map PStr (take 7 (map (strip_chars (u ''-* '' @ [9]))
                                      (filter (\<lambda>l. strip l \<noteq> []) (splitlines s))))"
            have "call_openai_suggestions lib w r j = Inr (PList ?ls)"
              using c Inr t v False by (cases v) simp_all
            moreover have "length ?ls \<le> 7" by simp
            ultimately show ?thesis by blast
          qed
        qed
      qed
    qed
  qed
qed

lemma eight_bullets_lines:
  "cleaned_lines eight_bullets = eight_points"
  by (simp add: cleaned_lines_def eight_bullets_def eight_points_def linebreak_def strip_def
      py_isspace_def strip_bullets_def bullet_def u_def)

theorem provider_line_caps_witness:
  "call_gemini_suggestions sample_library
     (sample_world True (Inr (output_response eight_bullets)) False (Inl OpenAIError))
     example_resume example_job
   = Inr (PList (map PStr (map u [''a'', ''b'', ''c'', ''d'', ''e'', ''f'', ''g''])))"
proof -
  let ?w = "sample_world True (Inr (output_response eight_bullets)) False (Inl OpenAIError)"
  have g: "gemini_configured ?w" by (simp add: sample_world_simps)
  have p: "\<forall>url payload. requests_post ?w url payload = Inr (output_response eight_bullets)"
    by (simp add: sample_world_simps)
  have n: "eight_bullets \<noteq> []"
    by (simp add: eight_bullets_def eight_points_def u_def)
  have t: "gemini_text_out sample_library (output_response eight_bullets) = Inr (PStr eight_bullets)"
    using n by (simp add: gemini_text_out_def output_response_def candidates_text_def output_text_def
        dict_get_def py_or_def u_def)
  have l: "json_loads sample_library eight_bullets = Inl ValueError"
    by (simp add: sample_library_def sample_json_loads_def eight_points_json_def eight_bullets_def
        eight_points_def u_def)
  have c: "take 7 (map strip_bullets (filter (\<lambda>line. line \<noteq> []) (map strip (splitlines eight_bullets))))
      = map u [''a'', ''b'', ''c'', ''d'', ''e'', ''f'', ''g'']"
    using eight_bullets_lines by (simp add: cleaned_lines_def eight_points_def)
  show ?thesis
    using provider_line_caps[of ?w "output_response eight_bullets" sample_library eight_bullets
        ValueError example_resume example_job] g p t l
    unfolding c by blast
qed

section \<open>Text normalizer: the words of the output\<close>

lemma solid_iff: "solid c \<longleftrightarrow> kept c \<and> \<not> py_isspace c"
proof
  assume "solid c"
  then have o: "out_char c" and n: "c \<noteq> 32" by (auto simp: solid_def out_char_def)
  show "kept c \<and> \<not> py_isspace c" using out_char_kept[OF o] out_char_space[OF o] n by blast
next
  assume a: "kept c \<and> \<not> py_isspace c"
  then have "out_char c" using kept_out_char by blast
  moreover have "c \<noteq> 32" using a space32 by auto
  ultimately show "solid c" by (auto simp: solid_def out_char_def)
qed

lemma blank_space: "py_isspace (if kept c then c else 32) \<longleftrightarrow> \<not> solid c"
  using space32 by (auto simp: solid_iff)

lemma spaced_Cons_solid:
  "solid c \<Longrightarrow> collapse_ws (blank_others (c # cs)) = c # collapse_ws (blank_others cs)"
  by (simp add: blank_others_def solid_iff)

lemma spaced_Cons_other:
  assumes "\<not> solid c"
  shows "collapse_ws (blank_others (c # cs))
    = 32 # collapse_ws (blank_others (dropWhile (\<lambda>x. \<not> solid x) cs))"
proof -
  have f: "(py_isspace \<circ> (\<lambda>c. if kept c then c else 32)) = (\<lambda>x. \<not> solid x)"
    using blank_space by (auto simp: fun_eq_iff)
  have d: "dropWhile py_isspace (blank_others cs) = blank_others (dropWhile (\<lambda>x. \<not> solid x) cs)"
    unfolding blank_others_def dropWhile_map f ..
  have "py_isspace (if kept c then c else 32)" using assms blank_space by blast
  then have "collapse_ws (blank_others (c # cs)) = 32 # collapse_ws (dropWhile py_isspace (blank_others cs))"
    by (simp add: blank_others_def)
  then show ?thesis unfolding d .
qed

lemma rstrip_Nil: "rstrip [] = []"
  by (simp add: rstrip_def)

lemma rstrip_Cons:
  "rstrip (a # y) = (if rstrip y = [] \<and> py_isspace a then [] else a # rstrip y)"
proof (cases "\<forall>x\<in>set (rev y). py_isspace x")
  case True
  have 1: "dropWhile py_isspace (rev y @ [a]) = dropWhile py_isspace [a]"
    by (rule dropWhile_append2) (use True in blast)
  have 2: "rstrip y = []" using True by (simp add: rstrip_def)
  have "rstrip (a # y) = rev (dropWhile py_isspace [a])" unfolding rstrip_def rev.simps 1 ..
  then show ?thesis unfolding 2 by simp
next
  case False
  then obtain x where "x \<in> set (rev y)" "\<not> py_isspace x" by blast
  then have 1: "dropWhile py_isspace (rev y @ [a]) = dropWhile py_isspace (rev y) @ [a]"
    by (rule dropWhile_append1)
  have 2: "rstrip y \<noteq> []" using False by (simp add: rstrip_def)
  have "rstrip (a # y) = a # rstrip y" unfolding rstrip_def rev.simps 1 by simp
  then show ?thesis using 2 by simp
qed

lemma strip_rstrip: "strip s = rstrip (dropWhile py_isspace s)"
  by (simp add: strip_def rstrip_def)

lemma join_Cons: "join sep (w # ws) = w @ (if ws = [] then [] else sep @ join sep ws)"
  by (cases ws) simp_all

lemma words_of_skip: "words_of (dropWhile (\<lambda>x. \<not> solid x) cs) = words_of cs"
  by (induction cs) simp_all

lemma words_of_start:
  assumes "t \<noteq> []" and "solid (hd t)"
  shows "words_of t = takeWhile solid t # words_of (dropWhile solid t)"
  using assms by (cases t) simp_all

lemma rstrip_spaced:
  "rstrip (collapse_ws (blank_others t))
    = takeWhile solid t
      @ (if words_of (dropWhile solid t) = [] then []
         else 32 # join [32] (words_of (dropWhile solid t)))"
proof (induction "length t" arbitrary: t rule: less_induct)
  case less
  show ?case
  proof (cases t)
    case Nil
    then show ?thesis by (simp add: blank_others_def rstrip_Nil)
  next
    case (Cons c cs)
    show ?thesis
    proof (cases "solid c")
      case True
      have ih: "rstrip (collapse_ws (blank_others cs))
        = takeWhile solid cs
          @ (if words_of (dropWhile solid cs) = [] then []
             else 32 # join [32] (words_of (dropWhile solid cs)))"
        using less[of cs] Cons by simp
      have ns: "\<not> py_isspace c" using True solid_iff by blast
      have "rstrip (collapse_ws (blank_others (c # cs))) = c # rstrip (collapse_ws (blank_others cs))"
        unfolding spaced_Cons_solid[OF True] rstrip_Cons using ns by simp
      then show ?thesis unfolding Cons ih using True by simp
    next
      case False
      let ?r = "dropWhile (\<lambda>x. \<not> solid x) cs"
      have len: "length ?r < length t" using Cons length_dropWhile_le[of "\<lambda>x. \<not> solid x" cs] by simp
      have ih: "rstrip (collapse_ws (blank_others ?r))
        = takeWhile solid ?r
          @ (if words_of (dropWhile solid ?r) = [] then []
             else 32 # join [32] (words_of (dropWhile solid ?r)))"
        using less[OF len] .
      have w: "words_of (c # cs) = words_of ?r" using False by (simp add: words_of_skip)
      have l: "rstrip (collapse_ws (blank_others (c # cs)))
          = (if rstrip (collapse_ws (blank_others ?r)) = [] then []
             else 32 # rstrip (collapse_ws (blank_others ?r)))"
        unfolding spaced_Cons_other[OF False] rstrip_Cons using space32 by simp
      have rhs: "takeWhile solid (c # cs)
          @ (if words_of (dropWhile solid (c # cs)) = [] then []
             else 32 # join [32] (words_of (dropWhile solid (c # cs))))
        = (if words_of ?r = [] then [] else 32 # join [32] (words_of ?r))"
        using False w by simp
      show ?thesis
      proof (cases "?r = []")
        case True
        show ?thesis unfolding Cons l rhs True by (simp add: blank_others_def rstrip_Nil)
      next
        case r: False
        then have h: "solid (hd ?r)" using hd_dropWhile[of "\<lambda>x. \<not> solid x" cs] by blast
        have ws: "words_of ?r = takeWhile solid ?r # words_of (dropWhile solid ?r)"
          using r h by (rule words_of_start)
        have tw: "takeWhile solid ?r \<noteq> []" using r h by (cases ?r) auto
        have j: "join [32] (words_of ?r) = rstrip (collapse_ws (blank_others ?r))"
          unfolding ih ws join_Cons by simp
        have ne: "rstrip (collapse_ws (blank_others ?r)) \<noteq> []" unfolding ih using tw by simp
        show ?thesis unfolding Cons l rhs using ne j ws by simp
      qed
    qed
  qed
qed

lemma strip_spaced: "strip (collapse_ws (blank_others t)) = join [32] (words_of t)"
proof (cases t)
  case Nil
  then show ?thesis by (simp add: blank_others_def strip_def)
next
  case (Cons c cs)
  show ?thesis
  proof (cases "solid c")
    case True
    have ns: "\<not> py_isspace c" using True solid_iff by blast
    have "dropWhile py_isspace (collapse_ws (blank_others t)) = collapse_ws (blank_others t)"
      unfolding Cons spaced_Cons_solid[OF True] using ns by simp
    then have "strip (collapse_ws (blank_others t)) = rstrip (collapse_ws (blank_others t))"
      unfolding strip_rstrip by simp
    also have "\<dots> = join [32] (words_of t)"
      unfolding rstrip_spaced using True Cons by (simp add: join_Cons)
    finally show ?thesis .
  next
    case False
    let ?r = "dropWhile (\<lambda>x. \<not> solid x) cs"
    have w: "words_of t = words_of ?r" using False Cons by (simp add: words_of_skip)
    have d: "dropWhile py_isspace (collapse_ws (blank_others t))
        = dropWhile py_isspace (collapse_ws (blank_others ?r))"
      unfolding Cons spaced_Cons_other[OF False] using space32 by simp
    show ?thesis
    proof (cases "?r = []")
      case True
      show ?thesis unfolding strip_rstrip d w True by (simp add: blank_others_def rstrip_Nil)
    next
      case r: False
      then have h: "solid (hd ?r)" using hd_dropWhile[of "\<lambda>x. \<not> solid x" cs] by blast
      obtain a as where ras: "?r = a # as" using r by (cases ?r) auto
      then have sa: "solid a" using h by simp
      then have ns: "\<not> py_isspace a" using solid_iff by blast
      have "dropWhile py_isspace (collapse_ws (blank_others ?r)) = collapse_ws (blank_others ?r)"
        unfolding ras spaced_Cons_solid[OF sa] using ns by simp
      then have "strip (collapse_ws (blank_others t)) = rstrip (collapse_ws (blank_others ?r))"
        unfolding strip_rstrip d by simp
      also have "\<dots> = join [32] (words_of ?r)"
        unfolding rstrip_spaced unfolding ras using sa by (simp add: join_Cons)
      finally show ?thesis unfolding w .
    qed
  qed
qed

lemma normalize_text_words: "normalize_text tab s = spec_normalize (lower tab s)"
  unfolding normalize_text_def spec_normalize_def by (rule strip_spaced)

lemma normalize_text_words_ascii:
  "\<forall>c\<in>set s. c < 128 \<Longrightarrow> normalize_text tab s = spec_normalize (map ascii_lower s)"
  unfolding normalize_text_words lower_def by (simp add: lower_from_ascii)

text \<open>
  C7. \<open>normalize_text\<close> is a total function (it is defined on every string, with no
  error branch, as the source has none). It lower-cases its input: its result is made
  from \<open>s.lower()\<close>, and is the words of the lower-cased text (the maximal runs of the
  characters \<open>a-z\<close>, \<open>0-9\<close>, \<open>+\<close>, \<open>#\<close>, \<open>.\<close>, \<open>-\<close>), in their order, joined by single
  spaces; on ASCII text \<open>s.lower()\<close> is the ASCII lower-casing. So the output consists of
  the characters \<open>a-z\<close>, \<open>0-9\<close>, space, \<open>+\<close>, \<open>#\<close>, \<open>.\<close> and \<open>-\<close> only, has no two
  consecutive spaces, neither starts nor ends with white space, and is empty for the
  empty string; a string of ASCII letters comes out as its lower-casing, and on ASCII
  text the result does not depend on the case of the input.
\<close>

theorem normalize_text_output:
  "normalize_text tab s = spec_normalize (lower tab s) \<and>
   ((\<forall>c\<in>set s. c < 128) \<longrightarrow> normalize_text tab s = spec_normalize (map ascii_lower s)) \<and>
   (\<forall>c\<in>set (normalize_text tab s). out_char c) \<and>
   (\<forall>i. Suc i < length (normalize_text tab s) \<longrightarrow>
        \<not> (normalize_text tab s ! i = 32 \<and> normalize_text tab s ! Suc i = 32)) \<and>
   (normalize_text tab s \<noteq> [] \<longrightarrow>
        \<not> py_isspace (hd (normalize_text tab s)) \<and> \<not> py_isspace (last (normalize_text tab s))) \<and>
   normalize_text tab [] = [] \<and>
   ((\<forall>c\<in>set s. (65 \<le> c \<and> c \<le> 90) \<or> (97 \<le> c \<and> c \<le> 122)) \<longrightarrow>
        normalize_text tab s = map ascii_lower s) \<and>
   ((\<forall>c\<in>set s. c < 128) \<longrightarrow> normalize_text tab (map ascii_lower s) = normalize_text tab s)"
proof (intro conjI)
  show "normalize_text tab s = spec_normalize (lower tab s)" by (rule normalize_text_words)
  show "(\<forall>c\<in>set s. c < 128) \<longrightarrow> normalize_text tab s = spec_normalize (map ascii_lower s)"
    using normalize_text_words_ascii by blast
  show "\<forall>c\<in>set (normalize_text tab s). out_char c"
    using normalize_text_chars by blast
  show "\<forall>i. Suc i < length (normalize_text tab s) \<longrightarrow>
        \<not> (normalize_text tab s ! i = 32 \<and> normalize_text tab s ! Suc i = 32)"
  proof (intro allI impI)
    fix i assume "Suc i < length (normalize_text tab s)"
    then have "\<not> (py_isspace (normalize_text tab s ! i) \<and> py_isspace (normalize_text tab s ! Suc i))"
      using successively_nth[OF normalize_text_successively] by blast
    then show "\<not> (normalize_text tab s ! i = 32 \<and> normalize_text tab s ! Suc i = 32)"
      using space32 by auto
  qed
  show "normalize_text tab s \<noteq> [] \<longrightarrow>
        \<not> py_isspace (hd (normalize_text tab s)) \<and> \<not> py_isspace (last (normalize_text tab s))"
    using strip_ends[of "collapse_ws (blank_others (lower tab s))"]
    unfolding normalize_text_def by blast
  show "normalize_text tab [] = []"
    by (simp add: normalize_text_def lower_def blank_others_def strip_def)
  show "(\<forall>c\<in>set s. (65 \<le> c \<and> c \<le> 90) \<or> (97 \<le> c \<and> c \<le> 122)) \<longrightarrow>
        normalize_text tab s = map ascii_lower s"
    using normalize_text_letters by blast
  show "(\<forall>c\<in>set s. c < 128) \<longrightarrow> normalize_text tab (map ascii_lower s) = normalize_text tab s"
    using normalize_text_ascii_case by blast
qed

theorem normalize_text_output_witness:
  "list_all (\<lambda>c. c < 128) (u ''  Hello,   World! C++/C# v2.0 '') \<and>
   normalize_text plain_case_table (u ''  Hello,   World! C++/C# v2.0 '')
     = u ''hello world c++ c# v2.0'' \<and>
   list_all (\<lambda>c. (65 \<le> c \<and> c \<le> 90) \<or> (97 \<le> c \<and> c \<le> 122)) (u ''PyThon'') \<and>
   normalize_text plain_case_table (u ''PyThon'') = u ''python'' \<and>
   \<not> py_isspace (hd (normalize_text plain_case_table (u ''PyThon''))) \<and>
   list_all out_char (normalize_text plain_case_table (u ''PyThon''))"
proof -
  have a: "\<forall>c\<in>set (u ''  Hello,   World! C++/C# v2.0 ''). c < 128" by (simp add: u_def)
  have w: "spec_normalize (map ascii_lower (u ''  Hello,   World! C++/C# v2.0 ''))
      = u ''hello world c++ c# v2.0''"
    by (simp add: spec_normalize_def solid_def ascii_lower_def u_def)
  have h: "normalize_text plain_case_table (u ''  Hello,   World! C++/C# v2.0 '')
      = u ''hello world c++ c# v2.0''"
    using normalize_text_output[of plain_case_table "u ''  Hello,   World! C++/C# v2.0 ''"] a
    unfolding w by blast
  have b: "\<forall>c\<in>set (u ''PyThon''). (65 \<le> c \<and> c \<le> 90) \<or> (97 \<le> c \<and> c \<le> 122)"
    by (simp add: u_def)
  have m: "map ascii_lower (u ''PyThon'') = u ''python''"
    by (simp add: u_def ascii_lower_def)
  have eq: "normalize_text plain_case_table (u ''PyThon'') = u ''python''"
    using normalize_text_output[of plain_case_table "u ''PyThon''"] b
    unfolding m by blast
  have l: "list_all (\<lambda>c. c < 128) (u ''  Hello,   World! C++/C# v2.0 '')" by (simp add: u_def)
  show ?thesis unfolding eq h using l by (simp add: u_def out_char_def py_isspace_def)
qed

section \<open>Match scorer: the score zero\<close>

lemma to_double_half:
  assumes "0 < x"
  shows "x / 2 < to_double x"
proof -
  have a: "(2::real) ^ 52 * 2 powi (ilog2 x - 52) = 2 powi ilog2 x"
    by (simp add: power_int_diff)
  have b: "(2::real) powi (ilog2 x + 1) = 2 * 2 powi ilog2 x"
    by (simp add: power_int_add)
  have "x < 2 * 2 powi ilog2 x" using ilog2_bounds(2)[OF assms] unfolding b .
  moreover have "2 powi ilog2 x \<le> to_double x" using to_double_bounds(1)[OF assms] unfolding a .
  ultimately show ?thesis by linarith
qed

lemma spec_score_pos:
  assumes "set R \<inter> set J \<noteq> {}" and "card (set J) \<le> 2500"
  shows "0 < spec_score R J"
proof -
  define k where "k = card (set R \<inter> set J)"
  define n where "n = card (set J)"
  define q where "q = real k / real n"
  define d where "d = to_double q"
  define x where "x = float_mul d 100"
  have J: "J \<noteq> []" using assms(1) by auto
  have k: "1 \<le> k" unfolding k_def using assms(1) by (simp add: Suc_le_eq card_gt_0_iff)
  have "k \<le> n" unfolding k_def n_def by (intro card_mono) auto
  then have n: "1 \<le> n" using k by linarith
  have n2: "n \<le> 2500" unfolding n_def by (rule assms(2))
  have "real n \<le> 2500 * real k"
  proof -
    have "n \<le> 2500 * k" using n2 k by simp
    then show ?thesis by (metis of_nat_le_iff of_nat_mult of_nat_numeral)
  qed
  then have q: "1 / 2500 \<le> q" unfolding q_def using n by (simp add: field_simps)
  have qpos: "0 < q" using q by linarith
  have "q / 2 < d" unfolding d_def using qpos by (rule to_double_half)
  then have d: "1 / 5000 < d" using q by linarith
  have dpos: "0 < d * 100" using d by linarith
  have "d * 100 / 2 < x" unfolding x_def float_mul_def using dpos by (rule to_double_half)
  then have x: "1 \<le> x * 100" using d by linarith
  have "round_half_even (of_int 1) \<le> round_half_even (x * 100)"
    using x by (intro round_half_even_mono) simp
  then have m: "1 \<le> round_half_even (x * 100)" by (simp only: round_half_even_of_int)
  have mpos: "0 < real_of_int (round_half_even (x * 100)) / 100" using m by simp
  have "0 < round2 x" unfolding round2_def using to_double_half[OF mpos] mpos by linarith
  then show ?thesis using J by (simp add: spec_score_def x_def d_def q_def k_def n_def)
qed

lemma spec_score_zero_iff:
  assumes "card (set J) \<le> 2500"
  shows "spec_score R J = 0 \<longleftrightarrow> J = [] \<or> set R \<inter> set J = {}"
proof
  assume z: "spec_score R J = 0"
  show "J = [] \<or> set R \<inter> set J = {}"
  proof (rule ccontr)
    assume "\<not> (J = [] \<or> set R \<inter> set J = {})"
    then have "0 < spec_score R J" using spec_score_pos[OF _ assms] by blast
    then show False using z by simp
  qed
next
  assume "J = [] \<or> set R \<inter> set J = {}"
  then show "spec_score R J = 0"
    using spec_score_no_overlap[of R J] by (auto simp: spec_score_def)
qed

lemma taxonomy_size: "length COMMON_SKILLS = 43"
  by (simp add: COMMON_SKILLS_def)

lemma extracted_card: "card (set (extract_skills tab s COMMON_SKILLS)) \<le> 2500"
proof -
  have "set (extract_skills tab s COMMON_SKILLS) \<subseteq> set COMMON_SKILLS"
    unfolding set_extract_skills by blast
  then have "card (set (extract_skills tab s COMMON_SKILLS)) \<le> card (set COMMON_SKILLS)"
    by (intro card_mono) simp_all
  also have "\<dots> \<le> length COMMON_SKILLS" by (rule card_length)
  finally show ?thesis unfolding taxonomy_size by simp
qed

lemma half_score: "spec_score [u ''python''] [u ''python'', u ''docker''] = 50"
proof -
  have i: "set [u ''python''] \<inter> set [u ''python'', u ''docker''] = {u ''python''}" by auto
  have c2: "card (set [u ''python'', u ''docker'']) = 2" by (simp add: u_def)
  have 1: "to_double (1 / 2) = 1 / 2" by (simp add: float_eval)
  have 2: "float_mul (1 / 2) 100 = 50" by (simp add: float_eval)
  have 3: "round2 50 = 50" by (simp add: float_eval)
  show ?thesis unfolding spec_score_def i c2 by (simp add: 1 2 3)
qed

text \<open>
  C5, as stated, fails: the score is not 0.0 only when the job skills are empty. A
  resume without skills against the job skill \<open>python\<close> scores 0.0 as well.
\<close>

theorem compute_match_zero_counterexample:
  "\<not> (compute_match [] [u ''python''] = Inr 0 \<longleftrightarrow> [u ''python''] = [])"
  by (simp add: compute_match_spec spec_score_no_overlap)

text \<open>
  C5, amended. For job skills \<open>J\<close> with at most 2500 distinct entries the score is 0.0
  exactly when \<open>J\<close> is empty or resume and job share no skill (beyond some 20000
  distinct job skills a single shared skill rounds to 0.0 as well); every list of job
  skills that the analysis extracts is within the bound, as the taxonomy has 43 entries,
  so the score of an analysis is 0.0 exactly when it found no job skill or no shared
  skill. And for fixed non-empty \<open>J\<close> the score does not decrease when \<open>|R \<inter> J|\<close>
  increases.
\<close>

theorem compute_match_zero_and_monotone:
  "(card (set J) \<le> 2500 \<longrightarrow>
      (compute_match R J = Inr 0 \<longleftrightarrow> J = [] \<or> set R \<inter> set J = {})) \<and>
   (J = [] \<longrightarrow> compute_match R J = Inr 0) \<and>
   (set R \<inter> set J = {} \<longrightarrow> compute_match R J = Inr 0) \<and>
   (J \<noteq> [] \<and> card (set R \<inter> set J) \<le> card (set R' \<inter> set J) \<longrightarrow>
      (\<exists>s s'. compute_match R J = Inr s \<and> compute_match R' J = Inr s' \<and> s \<le> s')) \<and>
   (\<exists>res called. analyze_resume_and_job lib w r j = Inr (res, called) \<and>
      (match_score res = 0 \<longleftrightarrow>
         skills_job res = [] \<or> set (skills_resume res) \<inter> set (skills_job res) = {}))"
proof (intro conjI impI)
  show "compute_match R J = Inr 0 \<longleftrightarrow> J = [] \<or> set R \<inter> set J = {}"
    if "card (set J) \<le> 2500"
    using spec_score_zero_iff[OF that, of R] by (simp add: compute_match_spec)
  show "compute_match R J = Inr 0" if "J = []" using that by (simp add: compute_match_def)
  show "compute_match R J = Inr 0" if "set R \<inter> set J = {}"
    using that by (simp add: compute_match_spec spec_score_no_overlap)
  show "\<exists>s s'. compute_match R J = Inr s \<and> compute_match R' J = Inr s' \<and> s \<le> s'"
    if "J \<noteq> [] \<and> card (set R \<inter> set J) \<le> card (set R' \<inter> set J)"
    using that spec_score_mono[of J R R'] compute_match_spec by blast
  obtain res called where a: "analyze_resume_and_job lib w r j = Inr (res, called)"
     "skills_job res = extract_skills (case_tab lib) j COMMON_SKILLS"
     "match_score res = spec_score (skills_resume res) (skills_job res)"
    using analyze_total by blast
  have "card (set (skills_job res)) \<le> 2500" unfolding a(2) by (rule extracted_card)
  then have "match_score res = 0 \<longleftrightarrow>
         skills_job res = [] \<or> set (skills_resume res) \<inter> set (skills_job res) = {}"
    unfolding a(3) by (rule spec_score_zero_iff)
  then show "\<exists>res called. analyze_resume_and_job lib w r j = Inr (res, called) \<and>
      (match_score res = 0 \<longleftrightarrow>
         skills_job res = [] \<or> set (skills_resume res) \<inter> set (skills_job res) = {})"
    using a(1) by blast
qed

theorem compute_match_zero_and_monotone_witness:
  "compute_match [] [u ''python'', u ''docker''] = Inr 0 \<and>
   compute_match [u ''python''] [u ''python'', u ''docker''] = Inr 50 \<and>
   compute_match [u ''python''] [u ''python'', u ''docker''] \<noteq> Inr 0 \<and>
   (\<exists>s s'. compute_match [] [u ''python'', u ''docker''] = Inr s \<and>
      compute_match [u ''python''] [u ''python'', u ''docker''] = Inr s' \<and> s \<le> s')"
proof -
  let ?J = "[u ''python'', u ''docker'']"
  have c: "card (set ?J) \<le> 2500" by (simp add: u_def)
  have n: "?J \<noteq> []" by simp
  have e: "set [] \<inter> set ?J = {}" by simp
  have o: "set [u ''python''] \<inter> set ?J \<noteq> {}" by simp
  have m: "card (set [] \<inter> set ?J) \<le> card (set [u ''python''] \<inter> set ?J)" by simp
  have 1: "compute_match [] ?J = Inr 0"
    using compute_match_zero_and_monotone[where J = ?J and R = "[]"] c e by blast
  have 2: "compute_match [u ''python''] ?J \<noteq> Inr 0"
    using compute_match_zero_and_monotone[where J = ?J and R = "[u ''python'']"] c n o by blast
  have 3: "\<exists>s s'. compute_match [] ?J = Inr s \<and> compute_match [u ''python''] ?J = Inr s' \<and> s \<le> s'"
    using compute_match_zero_and_monotone[where J = ?J and R = "[]" and R' = "[u ''python'']"] n m
    by blast
  have 4: "compute_match [u ''python''] ?J = Inr 50"
    unfolding compute_match_spec half_score ..
  show ?thesis using 1 2 3 4 by blast
qed

section \<open>Heuristic fallback: the lines and their order\<close>

lemma metrics_line_member:
  "metrics_line \<in> set (heuristic_suggestions R J)
     \<longleftrightarrow> u ''machine learning'' \<in> set J \<or> u ''nlp'' \<in> set J"
proof -
  have 1: "metrics_line \<noteq> quantify_line"
    by (simp add: metrics_line_def quantify_line_def u_def)
  have 2: "metrics_line \<noteq> projects_line"
    by (simp add: metrics_line_def projects_line_def u_def)
  have 3: "metrics_line \<noteq> u ''Skills to add or highlight: '' @ x" for x
    by (simp add: metrics_line_def u_def)
  show ?thesis
    unfolding heuristic_suggestions_list using 1 2 3 by simp
qed

text \<open>
  C8, as stated, fails: the job skill list \<open>['deep learning']\<close> contains a
  machine-learning-related skill, and the suggestions for it are the line of the missing
  skill and the two fixed lines, without the line on model metrics and deployment. The
  same holds of \<open>pytorch\<close>, \<open>tensorflow\<close> and \<open>scikit-learn\<close>.
\<close>

theorem heuristic_metrics_counterexample:
  "list_ex spec_ml_or_nlp_related [u ''deep learning''] \<and>
   metrics_line \<notin> set (heuristic_suggestions [] [u ''deep learning'']) \<and>
   heuristic_suggestions [] [u ''deep learning''] =
     [u ''Skills to add or highlight: deep learning'', quantify_line, projects_line] \<and>
   list_ex spec_ml_or_nlp_related (map u [''pytorch'', ''scikit-learn'', ''tensorflow'']) \<and>
   heuristic_suggestions [] (map u [''pytorch'', ''scikit-learn'', ''tensorflow'']) =
     [u ''Skills to add or highlight: pytorch, scikit-learn, tensorflow'',
      quantify_line, projects_line]"
proof -
  have a: "heuristic_suggestions [] [u ''deep learning''] =
     [u ''Skills to add or highlight: deep learning'', quantify_line, projects_line]"
    unfolding heuristic_suggestions_list by (simp add: u_def)
  have b: "heuristic_suggestions [] (map u [''pytorch'', ''scikit-learn'', ''tensorflow'']) =
     [u ''Skills to add or highlight: pytorch, scikit-learn, tensorflow'',
      quantify_line, projects_line]"
    unfolding heuristic_suggestions_list by (simp add: u_def)
  have c: "metrics_line \<notin> set (heuristic_suggestions [] [u ''deep learning''])"
    unfolding a by (simp add: metrics_line_def quantify_line_def projects_line_def u_def)
  have d: "list_ex spec_ml_or_nlp_related [u ''deep learning'']"
    by (simp add: spec_ml_or_nlp_related_def u_def)
  have e: "list_ex spec_ml_or_nlp_related (map u [''pytorch'', ''scikit-learn'', ''tensorflow''])"
    by (simp add: spec_ml_or_nlp_related_def u_def)
  show ?thesis using a b c d e by blast
qed

text \<open>
  C8, amended. \<open>heuristic_suggestions\<close> is total and returns, in this order: one line that
  lists the skills of \<open>J - R\<close>, sorted, without duplicates and joined by a comma and a
  space, when that difference is not empty; then the two fixed lines (quantify
  achievements; add a key-projects section); then the line on model metrics and
  deployment exactly when \<open>J\<close> contains the skill named \<open>machine learning\<close> or the skill
  named \<open>nlp\<close>. So the line appears only for a list with a machine-learning- or
  NLP-related skill, and not for every such list. For the texts of Example 1, with no
  provider configured, the suggestions of the analysis are these lines, the first of
  which names \<open>kubernetes\<close> as missing.
\<close>

theorem heuristic_suggestions_shape:
  "(\<exists>missing. sorted missing \<and> distinct missing \<and> set missing = set J - set R \<and>
      heuristic_suggestions R J =
        (if missing \<noteq> [] then [u ''Skills to add or highlight: '' @ join (u '', '') missing] else [])
        @ [quantify_line, projects_line]
        @ (if u ''machine learning'' \<in> set J \<or> u ''nlp'' \<in> set J then [metrics_line] else [])) \<and>
   (metrics_line \<in> set (heuristic_suggestions R J)
      \<longleftrightarrow> u ''machine learning'' \<in> set J \<or> u ''nlp'' \<in> set J) \<and>
   (metrics_line \<in> set (heuristic_suggestions R J) \<longrightarrow> list_ex spec_ml_or_nlp_related J) \<and>
   (\<not> gemini_configured w \<and> \<not> openai_configured w \<longrightarrow>
      (\<exists>res. analyze_resume_and_job lib w example_resume example_job = Inr (res, [Heuristic]) \<and>
         suggestions res = PList (map PStr [u ''Skills to add or highlight: kubernetes'',
                                             quantify_line, projects_line])))"
proof (intro conjI impI)
  let ?m = "sorted_list_of_set (set J - set R)"
  have e: "(?m \<noteq> []) = (set J - set R \<noteq> {})" by simp
  have "heuristic_suggestions R J =
        (if ?m \<noteq> [] then [u ''Skills to add or highlight: '' @ join (u '', '') ?m] else [])
        @ [quantify_line, projects_line]
        @ (if u ''machine learning'' \<in> set J \<or> u ''nlp'' \<in> set J then [metrics_line] else [])"
    unfolding e heuristic_suggestions_def Let_def quantify_line_def projects_line_def metrics_line_def
    by simp
  moreover have "sorted ?m \<and> distinct ?m \<and> set ?m = set J - set R" by simp
  ultimately show "\<exists>missing. sorted missing \<and> distinct missing \<and> set missing = set J - set R \<and>
      heuristic_suggestions R J =
        (if missing \<noteq> [] then [u ''Skills to add or highlight: '' @ join (u '', '') missing] else [])
        @ [quantify_line, projects_line]
        @ (if u ''machine learning'' \<in> set J \<or> u ''nlp'' \<in> set J then [metrics_line] else [])"
    by blast
next
  show "metrics_line \<in> set (heuristic_suggestions R J)
      \<longleftrightarrow> u ''machine learning'' \<in> set J \<or> u ''nlp'' \<in> set J"
    by (rule metrics_line_member)
next
  assume "metrics_line \<in> set (heuristic_suggestions R J)"
  then have "u ''machine learning'' \<in> set J \<or> u ''nlp'' \<in> set J"
    using metrics_line_member by blast
  moreover have "spec_ml_or_nlp_related (u ''machine learning'')"
    by (simp add: spec_ml_or_nlp_related_def)
  moreover have "spec_ml_or_nlp_related (u ''nlp'')"
    by (simp add: spec_ml_or_nlp_related_def)
  ultimately show "list_ex spec_ml_or_nlp_related J"
    unfolding list_ex_iff by blast
next
  assume "\<not> gemini_configured w \<and> \<not> openai_configured w"
  then show "\<exists>res. analyze_resume_and_job lib w example_resume example_job = Inr (res, [Heuristic]) \<and>
         suggestions res = PList (map PStr [u ''Skills to add or highlight: kubernetes'',
                                             quantify_line, projects_line])"
    using example_analysis[of lib w] by blast
qed

theorem heuristic_suggestions_shape_witness:
  "heuristic_suggestions [u ''python''] (map u [''sql'', ''nlp'', ''docker'', ''python'', ''aws'', ''sql''])
     = [u ''Skills to add or highlight: aws, docker, nlp, sql'',
        quantify_line, projects_line, metrics_line] \<and>
   metrics_line \<in> set (heuristic_suggestions [u ''python'']
       (map u [''sql'', ''nlp'', ''docker'', ''python'', ''aws'', ''sql''])) \<and>
   list_ex spec_ml_or_nlp_related (map u [''sql'', ''nlp'', ''docker'', ''python'', ''aws'', ''sql'']) \<and>
   heuristic_suggestions [u ''python''] [u ''python''] = [quantify_line, projects_line] \<and>
   (\<exists>res. analyze_resume_and_job sample_library
       (sample_world False (Inl RequestException) False (Inl OpenAIError))
       example_resume example_job = Inr (res, [Heuristic]) \<and>
     suggestions res = PList (map PStr [u ''Skills to add or highlight: kubernetes'',
                                         quantify_line, projects_line]))"
proof -
  let ?R = "[u ''python'']"
  let ?J = "map u [''sql'', ''nlp'', ''docker'', ''python'', ''aws'', ''sql'']"
  let ?M = "map u [''aws'', ''docker'', ''nlp'', ''sql'']"
  note T = heuristic_suggestions_shape[of ?J ?R
      "sample_world False (Inl RequestException) False (Inl OpenAIError)" sample_library]
  have n: "u ''nlp'' \<in> set ?J" by simp
  have sM: "sorted ?M \<and> distinct ?M" by (simp add: u_def)
  have dM: "set ?M = set ?J - set ?R" by (auto simp: u_def)
  from T obtain missing where m: "sorted missing" "distinct missing" "set missing = set ?J - set ?R"
    and h: "heuristic_suggestions ?R ?J =
        (if missing \<noteq> [] then [u ''Skills to add or highlight: '' @ join (u '', '') missing] else [])
        @ [quantify_line, projects_line]
        @ (if u ''machine learning'' \<in> set ?J \<or> u ''nlp'' \<in> set ?J then [metrics_line] else [])"
    by blast
  have "missing = ?M"
    using sorted_distinct_set_unique[of missing ?M] m sM dM by simp
  then have 1: "heuristic_suggestions ?R ?J = [u ''Skills to add or highlight: aws, docker, nlp, sql'',
        quantify_line, projects_line, metrics_line]"
    using h n by (simp add: u_def)
  have 2: "metrics_line \<in> set (heuristic_suggestions ?R ?J)"
    using T n by blast
  then have 3: "list_ex spec_ml_or_nlp_related ?J" using T by blast
  note T2 = heuristic_suggestions_shape[of "[u ''python'']" "[u ''python'']"
      "sample_world False (Inl RequestException) False (Inl OpenAIError)" sample_library]
  from T2 obtain missing2 where m2: "set missing2 = set [u ''python''] - set [u ''python'']"
    and h2: "heuristic_suggestions [u ''python''] [u ''python''] =
        (if missing2 \<noteq> [] then [u ''Skills to add or highlight: '' @ join (u '', '') missing2] else [])
        @ [quantify_line, projects_line]
        @ (if u ''machine learning'' \<in> set [u ''python''] \<or> u ''nlp'' \<in> set [u ''python'']
           then [metrics_line] else [])"
    by blast
  have "missing2 = []" using m2 by simp
  then have 4: "heuristic_suggestions [u ''python''] [u ''python''] = [quantify_line, projects_line]"
    using h2 by (simp add: u_def)
  have 5: "\<exists>res. analyze_resume_and_job sample_library
       (sample_world False (Inl RequestException) False (Inl OpenAIError))
       example_resume example_job = Inr (res, [Heuristic]) \<and>
     suggestions res = PList (map PStr [u ''Skills to add or highlight: kubernetes'',
                                         quantify_line, projects_line])"
    using T by (simp add: sample_world_simps)
  show ?thesis using 1 2 3 4 5 by blast
qed

end
